theory Spec2Isabelle
  imports Complex_Main "HOL-Library.Word"
begin

unbundle bit_operations_syntax

section \<open>Python values and exceptions\<close>

text \<open>
  The tools of \<^verbatim>\<open>main.py\<close> (Calculator Pro) and \<^verbatim>\<open>main-enhanced.py\<close> (Demo) are
  Python functions over \<^verbatim>\<open>int\<close>, \<^verbatim>\<open>float\<close> and \<^verbatim>\<open>str\<close>. A Python \<^verbatim>\<open>int\<close> is unbounded
  and is modelled by \<^typ>\<open>int\<close>; a Python \<^verbatim>\<open>float\<close> is a C double and is modelled by its
  64-bit IEEE 754 pattern; a \<^verbatim>\<open>str\<close> is a \<^typ>\<open>string\<close>. A call either returns a value
  (\<open>Inr\<close>) or raises an exception (\<open>Inl\<close>). The \<^verbatim>\<open>print\<close> calls that open the calculator
  tools write a diagnostic line and do not influence the returned value; they are not
  part of the model.
\<close>

type_synonym float = "64 word"

datatype pyval = PyInt int | PyFloat float | PyStr string

datatype exn = OverflowError | ValueError | ZeroDivisionError

type_synonym 'a outcome = "exn + 'a"

text \<open>Sequencing inside a \<^verbatim>\<open>try\<close> body: the first exception ends the body.\<close>

definition bind_exn :: "'a outcome \<Rightarrow> ('a \<Rightarrow> 'b outcome) \<Rightarrow> 'b outcome" where
  "bind_exn m f = (case m of Inl e \<Rightarrow> Inl e | Inr v \<Rightarrow> f v)"

text \<open>\<^verbatim>\<open>try: body  except E: return v\<close>: only the named exception is caught.\<close>

definition try_except :: "'a outcome \<Rightarrow> exn \<Rightarrow> 'a \<Rightarrow> 'a outcome" where
  "try_except body e v =
     (case body of Inl e' \<Rightarrow> (if e' = e then Inr v else Inl e') | Inr r \<Rightarrow> Inr r)"

section \<open>Integer limits and the integer bounds check\<close>

text \<open>
  \<^verbatim>\<open>sys.maxsize\<close> is the largest value of the platform's \<^verbatim>\<open>Py_ssize_t\<close>; on the 64-bit
  platforms CPython runs on it is \<open>2^63 - 1\<close>.
\<close>

definition sys_maxsize :: int where
  "sys_maxsize = 2 ^ 63 - 1"

definition INT_MIN :: int where
  "INT_MIN = - sys_maxsize - 1"

definition INT_MAX :: int where
  "INT_MAX = sys_maxsize"

definition underflow_msg :: "string \<Rightarrow> string" where
  "underflow_msg operation =
     ''Error: Underflow occurred in '' @ operation @ ''. Result is too small.''"

definition overflow_msg :: "string \<Rightarrow> string" where
  "overflow_msg operation =
     ''Error: Overflow occurred in '' @ operation @ ''. Result is too large.''"

definition check_integer_bounds :: "int \<Rightarrow> string \<Rightarrow> pyval" where
  "check_integer_bounds v operation =
     (if v < INT_MIN then PyStr (underflow_msg operation)
      else if v > INT_MAX then PyStr (overflow_msg operation)
      else PyInt v)"

section \<open>Calculator: integer tools\<close>

text \<open>
  Addition, subtraction and multiplication of Python integers are exact and raise
  nothing, so the \<^verbatim>\<open>except OverflowError\<close> handlers have nothing to catch; they are
  kept in the model as written.
\<close>

definition add :: "int \<Rightarrow> int \<Rightarrow> pyval outcome" where
  "add a b =
     try_except
       (bind_exn (Inr (a + b)) (\<lambda>result. Inr (check_integer_bounds result ''addition'')))
       OverflowError
       (PyStr ''Error: Overflow occurred in addition. Result is too large.'')"

definition subtract :: "int \<Rightarrow> int \<Rightarrow> pyval outcome" where
  "subtract a b =
     try_except
       (bind_exn (Inr (a - b)) (\<lambda>result. Inr (check_integer_bounds result ''subtraction'')))
       OverflowError
       (PyStr ''Error: Overflow occurred in subtraction. Result is too large.'')"

definition multiply :: "int \<Rightarrow> int \<Rightarrow> pyval outcome" where
  "multiply a b =
     try_except
       (bind_exn (Inr (a * b)) (\<lambda>result. Inr (check_integer_bounds result ''multiplication'')))
       OverflowError
       (PyStr ''Error: Overflow occurred in multiplication. Result is too large.'')"

text \<open>
  Python's \<^verbatim>\<open>a % b\<close> on integers, as CPython computes it: the remainder of the
  division of the magnitudes takes the sign of the dividend (C's truncating
  remainder), and when it is non-zero and its sign differs from the divisor's the
  divisor is added. A zero divisor raises \<^verbatim>\<open>ZeroDivisionError\<close>.
\<close>

definition trunc_rem :: "int \<Rightarrow> int \<Rightarrow> int" where
  "trunc_rem a b = sgn a * (\<bar>a\<bar> mod \<bar>b\<bar>)"

definition py_mod :: "int \<Rightarrow> int \<Rightarrow> int outcome" where
  "py_mod a b =
     (if b = 0 then Inl ZeroDivisionError
      else let r = trunc_rem a b
           in if (r < 0 \<and> b > 0) \<or> (r > 0 \<and> b < 0) then Inr (r + b) else Inr r)"

definition modulo_calc :: "int \<Rightarrow> int \<Rightarrow> pyval outcome" where
  "modulo_calc a b =
     (if b = 0 then Inr (PyStr ''Error: Cannot perform modulo with zero divisor.'')
      else try_except
             (bind_exn (py_mod a b) (\<lambda>r. Inr (PyInt r)))
             OverflowError
             (PyStr ''Error: Overflow occurred in modulo operation.''))"

section \<open>Floating-point numbers\<close>

text \<open>
  A \<^verbatim>\<open>float\<close> is an IEEE 754 binary64 value: bit 63 is the sign, bits 62 to 52 the
  biased exponent and bits 51 to 0 the fraction. Exponent 2047 encodes the infinities
  (fraction zero) and the NaNs (fraction non-zero); exponent 0 encodes the zeros and
  the subnormal numbers.
\<close>

definition sign_bit :: "float \<Rightarrow> bool" where
  "sign_bit w = bit w 63"

definition biased_exp :: "float \<Rightarrow> nat" where
  "biased_exp w = unat (take_bit 11 (drop_bit 52 w))"

definition fraction :: "float \<Rightarrow> nat" where
  "fraction w = unat (take_bit 52 w)"

definition is_nan :: "float \<Rightarrow> bool" where
  "is_nan w = (biased_exp w = 2047 \<and> fraction w \<noteq> 0)"

definition is_inf :: "float \<Rightarrow> bool" where
  "is_inf w = (biased_exp w = 2047 \<and> fraction w = 0)"

definition is_finite :: "float \<Rightarrow> bool" where
  "is_finite w = (biased_exp w < 2047)"

definition is_zero :: "float \<Rightarrow> bool" where
  "is_zero w = (biased_exp w = 0 \<and> fraction w = 0)"

text \<open>The real number a finite float stands for.\<close>

definition magnitude :: "float \<Rightarrow> real" where
  "magnitude w =
     (if biased_exp w = 0 then real (fraction w) * 2 powi (- 1074)
      else real (2 ^ 52 + fraction w) * 2 powi (int (biased_exp w) - 1075))"

definition valof :: "float \<Rightarrow> real" where
  "valof w = (if sign_bit w then - magnitude w else magnitude w)"

definition mk_float :: "bool \<Rightarrow> nat \<Rightarrow> nat \<Rightarrow> float" where
  "mk_float s e f = word_of_nat ((if s then 2 ^ 63 else 0) + e * 2 ^ 52 + f)"

definition pos_inf :: float where
  "pos_inf = 0x7FF0000000000000"

definition neg_inf :: float where
  "neg_inf = 0xFFF0000000000000"

text \<open>
  The NaN an invalid operation delivers. Its sign and payload differ between
  processors; no statement below depends on them.
\<close>

definition quiet_nan :: float where
  "quiet_nan = 0x7FF8000000000000"

subsection \<open>Comparisons\<close>

text \<open>
  Python's \<^verbatim>\<open>==\<close> and \<^verbatim>\<open><\<close> on floats are the IEEE comparisons: a NaN is unequal
  to everything and never less, and the two zeros are equal. A float is compared with
  an \<^verbatim>\<open>int\<close> by exact value.
\<close>

definition float_eq :: "float \<Rightarrow> float \<Rightarrow> bool" where
  "float_eq a b =
     (\<not> is_nan a \<and> \<not> is_nan b \<and>
      (if is_inf a \<or> is_inf b then is_inf a \<and> is_inf b \<and> sign_bit a = sign_bit b
       else valof a = valof b))"

definition float_eq_int :: "float \<Rightarrow> int \<Rightarrow> bool" where
  "float_eq_int a i = (is_finite a \<and> valof a = real_of_int i)"

definition float_lt_int :: "float \<Rightarrow> int \<Rightarrow> bool" where
  "float_lt_int a i =
     (\<not> is_nan a \<and> (if is_inf a then sign_bit a else valof a < real_of_int i))"

subsection \<open>The float bounds check\<close>

definition check_float_bounds :: "float \<Rightarrow> string \<Rightarrow> pyval" where
  "check_float_bounds v operation =
     (if float_eq v neg_inf then PyStr (underflow_msg operation)
      else if float_eq v pos_inf then PyStr (overflow_msg operation)
      else PyFloat v)"

subsection \<open>Arithmetic\<close>

text \<open>
  IEEE 754 arithmetic delivers the exact result rounded to the nearest float, ties to
  the even fraction; a magnitude that rounds beyond the largest finite float becomes
  an infinity. \<open>round_float s a\<close> rounds the magnitude \<open>a \<ge> 0\<close> and gives it the
  sign \<open>s\<close>.
\<close>

definition round_even :: "real \<Rightarrow> int" where
  "round_even x =
     (let f = \<lfloor>x\<rfloor>; d = x - real_of_int f
      in if d < 1 / 2 then f
         else if d > 1 / 2 then f + 1
         else if even f then f else f + 1)"

definition round_float :: "bool \<Rightarrow> real \<Rightarrow> float" where
  "round_float s a =
     (if a = 0 then mk_float s 0 0
      else
        let e = max \<lfloor>log 2 a\<rfloor> (- 1022);
            m = round_even (a * 2 powi (52 - e));
            e' = (if m = 2 ^ 53 then e + 1 else e);
            m' = (if m = 2 ^ 53 then 2 ^ 52 else m)
        in if e' > 1023 then mk_float s 2047 0
           else if m' < 2 ^ 52 then mk_float s 0 (nat m')
           else mk_float s (nat (e' + 1023)) (nat (m' - 2 ^ 52)))"

definition fmul :: "float \<Rightarrow> float \<Rightarrow> float" where
  "fmul a b =
     (let s = (sign_bit a \<noteq> sign_bit b)
      in if is_nan a \<or> is_nan b then quiet_nan
         else if is_inf a \<or> is_inf b then
           (if is_zero a \<or> is_zero b then quiet_nan else mk_float s 2047 0)
         else round_float s (magnitude a * magnitude b))"

text \<open>
  \<open>fdiv\<close> is the processor's division. Python reaches it only with a divisor that is
  not zero (see \<open>float_truediv\<close>); the IEEE results for a zero divisor are given for
  completeness.
\<close>

definition fdiv :: "float \<Rightarrow> float \<Rightarrow> float" where
  "fdiv a b =
     (let s = (sign_bit a \<noteq> sign_bit b)
      in if is_nan a \<or> is_nan b then quiet_nan
         else if is_inf a then (if is_inf b then quiet_nan else mk_float s 2047 0)
         else if is_inf b then mk_float s 0 0
         else if is_zero b then (if is_zero a then quiet_nan else mk_float s 2047 0)
         else round_float s (magnitude a / magnitude b))"

definition fsqrt :: "float \<Rightarrow> float" where
  "fsqrt a =
     (if is_nan a then quiet_nan
      else if is_zero a then a
      else if sign_bit a then quiet_nan
      else if is_inf a then a
      else round_float False (sqrt (magnitude a)))"

text \<open>Python's \<^verbatim>\<open>x / y\<close> on floats: a zero divisor raises, anything else divides.\<close>

definition float_truediv :: "float \<Rightarrow> float \<Rightarrow> float outcome" where
  "float_truediv a b = (if is_zero b then Inl ZeroDivisionError else Inr (fdiv a b))"

definition float_lt :: "float \<Rightarrow> float \<Rightarrow> bool" where
  "float_lt a b =
     (\<not> is_nan a \<and> \<not> is_nan b \<and>
      (if is_inf a then sign_bit a \<and> \<not> (is_inf b \<and> sign_bit b)
       else if is_inf b then \<not> sign_bit b
       else valof a < valof b))"

definition fabs :: "float \<Rightarrow> float" where
  "fabs a = take_bit 63 a"

definition fneg :: "float \<Rightarrow> float" where
  "fneg a = a XOR push_bit 63 1"

definition pos_zero :: float where
  "pos_zero = 0"

definition neg_zero :: float where
  "neg_zero = 0x8000000000000000"

definition float_one :: float where
  "float_one = 0x3FF0000000000000"

section \<open>The math module\<close>

text \<open>
  \<^verbatim>\<open>math.sin\<close>, \<^verbatim>\<open>math.cos\<close>, \<^verbatim>\<open>math.tan\<close> and \<^verbatim>\<open>math.sqrt\<close> call the C function of
  the same name and turn a special result into an exception: a NaN from an argument
  that is not a NaN is a \<^verbatim>\<open>ValueError\<close>, an infinity from a finite argument is an
  \<^verbatim>\<open>OverflowError\<close> for a function that can overflow and a \<^verbatim>\<open>ValueError\<close> otherwise
  (none of the four can overflow).

  The square root is an IEEE operation, \<open>fsqrt\<close>. The results of the C library's
  \<^verbatim>\<open>sin\<close>, \<^verbatim>\<open>cos\<close>, \<^verbatim>\<open>tan\<close> and \<^verbatim>\<open>pow\<close> differ between platforms in the last digit, so
  the library is a parameter of every tool that uses it.
\<close>

record libm =
  c_sin :: "float \<Rightarrow> float"
  c_cos :: "float \<Rightarrow> float"
  c_tan :: "float \<Rightarrow> float"
  c_pow :: "float \<Rightarrow> float \<Rightarrow> float"

definition math_1 :: "(float \<Rightarrow> float) \<Rightarrow> bool \<Rightarrow> float \<Rightarrow> float outcome" where
  "math_1 func can_overflow x =
     (let r = func x
      in if is_nan r \<and> \<not> is_nan x then Inl ValueError
         else if is_inf r \<and> is_finite x then
           (if can_overflow then Inl OverflowError else Inl ValueError)
         else Inr r)"

definition math_sqrt :: "float \<Rightarrow> float outcome" where
  "math_sqrt x = math_1 fsqrt False x"

definition math_sin :: "libm \<Rightarrow> float \<Rightarrow> float outcome" where
  "math_sin L x = math_1 (c_sin L) False x"

definition math_cos :: "libm \<Rightarrow> float \<Rightarrow> float outcome" where
  "math_cos L x = math_1 (c_cos L) False x"

definition math_tan :: "libm \<Rightarrow> float \<Rightarrow> float outcome" where
  "math_tan L x = math_1 (c_tan L) False x"

text \<open>\<^verbatim>\<open>math.radians(x)\<close> is \<^verbatim>\<open>x * (pi / 180)\<close>, the factor being the float nearest to \<open>\<pi>/180\<close>.\<close>

definition deg_to_rad :: float where
  "deg_to_rad = 0x3F91DF46A2529D39"

definition math_radians :: "float \<Rightarrow> float outcome" where
  "math_radians x = Inr (fmul x deg_to_rad)"

definition math_pi :: float where
  "math_pi = 0x400921FB54442D18"

text \<open>
  \<^verbatim>\<open>math.pow\<close> answers the cases with a NaN or an infinity itself and never raises
  there. For finite arguments it calls the C library's \<^verbatim>\<open>pow\<close>: a NaN result (a
  negative base with a fractional exponent) and an infinite result from a zero base
  are a \<^verbatim>\<open>ValueError\<close>, any other infinite result is an \<^verbatim>\<open>OverflowError\<close>.
\<close>

definition is_odd_integer :: "float \<Rightarrow> bool" where
  "is_odd_integer y =
     (is_finite y \<and> magnitude y = real_of_int \<lfloor>magnitude y\<rfloor> \<and> odd \<lfloor>magnitude y\<rfloor>)"

definition math_pow :: "libm \<Rightarrow> float \<Rightarrow> float \<Rightarrow> float outcome" where
  "math_pow L x y =
     (if \<not> is_finite x \<or> \<not> is_finite y then
        Inr (if is_nan x then (if float_eq y pos_zero then float_one else x)
             else if is_nan y then (if float_eq x float_one then float_one else y)
             else if is_inf x then
               (let odd_y = is_odd_integer y
                in if float_lt pos_zero y then (if odd_y then x else fabs x)
                   else if float_eq y pos_zero then float_one
                   else (if odd_y then (if sign_bit x then neg_zero else pos_zero)
                         else pos_zero))
             else
               (if float_eq (fabs x) float_one then float_one
                else if float_lt pos_zero y \<and> float_lt float_one (fabs x) then y
                else if float_lt y pos_zero \<and> float_lt (fabs x) float_one then fneg y
                else pos_zero))
      else
        let r = c_pow L x y
        in if is_nan r then Inl ValueError
           else if is_inf r then (if float_eq x pos_zero then Inl ValueError else Inl OverflowError)
           else Inr r)"

section \<open>Calculator: float tools\<close>

definition divide_calc :: "float \<Rightarrow> float \<Rightarrow> pyval outcome" where
  "divide_calc numerator denominator =
     (if float_eq_int denominator 0 then Inr (PyStr ''Error: Cannot divide by zero.'')
      else try_except
             (bind_exn (float_truediv numerator denominator)
                (\<lambda>result. Inr (check_float_bounds result ''division'')))
             OverflowError
             (PyStr ''Error: Overflow occurred in division.''))"

definition power_calc :: "libm \<Rightarrow> float \<Rightarrow> float \<Rightarrow> pyval outcome" where
  "power_calc L base exponent =
     try_except
       (bind_exn (math_pow L base exponent)
          (\<lambda>result. Inr (check_float_bounds result ''exponentiation'')))
       OverflowError
       (PyStr ''Error: Overflow occurred in exponentiation. Result is too large.'')"

definition square_root :: "float \<Rightarrow> pyval outcome" where
  "square_root number =
     (if float_lt_int number 0 then
        Inr (PyStr ''Error: Cannot calculate the square root of a negative number.'')
      else try_except
             (bind_exn (math_sqrt number) (\<lambda>r. Inr (PyFloat r)))
             OverflowError
             (PyStr ''Error: Overflow occurred in square root calculation.''))"

definition sine :: "libm \<Rightarrow> float \<Rightarrow> pyval outcome" where
  "sine L angle_degrees =
     try_except
       (bind_exn (math_radians angle_degrees) (\<lambda>angle_radians.
        bind_exn (math_sin L angle_radians) (\<lambda>result.
        Inr (check_float_bounds result ''sine calculation''))))
       OverflowError
       (PyStr ''Error: Overflow occurred in sine calculation.'')"

definition cosine :: "libm \<Rightarrow> float \<Rightarrow> pyval outcome" where
  "cosine L angle_degrees =
     try_except
       (bind_exn (math_radians angle_degrees) (\<lambda>angle_radians.
        bind_exn (math_cos L angle_radians) (\<lambda>result.
        Inr (check_float_bounds result ''cosine calculation''))))
       OverflowError
       (PyStr ''Error: Overflow occurred in cosine calculation.'')"

text \<open>\<open>tangent\<close> has two handlers; an exception is caught by the one that names it.\<close>

definition tangent :: "libm \<Rightarrow> float \<Rightarrow> pyval outcome" where
  "tangent L angle_degrees =
     try_except
       (try_except
          (bind_exn (math_radians angle_degrees) (\<lambda>angle_radians.
           bind_exn (math_tan L angle_radians) (\<lambda>result.
           Inr (check_float_bounds result ''tangent calculation''))))
          OverflowError
          (PyStr ''Error: Overflow occurred in tangent calculation.''))
       ValueError
       (PyStr ''Error: Invalid input for tangent calculation.'')"

section \<open>Demo tools\<close>

text \<open>
  The tools of \<^verbatim>\<open>main-enhanced.py\<close>. Two of them read the world outside their
  arguments: \<open>random_number\<close> the state of the random generator and \<open>current_time\<close>
  the clock. The generator is modelled by a number from which draws are taken, so
  that every value of the range can be drawn; the clock by the local date and time.
\<close>

record datetime =
  dt_year :: nat
  dt_month :: nat
  dt_day :: nat
  dt_hour :: nat
  dt_minute :: nat
  dt_second :: nat

record world =
  rng :: nat
  clock :: datetime

definition demo_add :: "int \<Rightarrow> int \<Rightarrow> pyval outcome" where
  "demo_add a b = Inr (PyInt (a + b))"

definition demo_multiply :: "int \<Rightarrow> int \<Rightarrow> pyval outcome" where
  "demo_multiply a b = Inr (PyInt (a * b))"

text \<open>
  \<^verbatim>\<open>random.randint(a, b)\<close> is \<^verbatim>\<open>randrange(a, b + 1)\<close>: with \<open>width = b + 1 - a\<close> it
  returns \<open>a\<close> plus a draw below \<open>width\<close> when \<open>width > 0\<close> and raises \<^verbatim>\<open>ValueError\<close>
  (empty range) otherwise.
\<close>

definition randbelow :: "nat \<Rightarrow> world \<Rightarrow> nat \<times> world" where
  "randbelow n w = (rng w mod n, w\<lparr>rng := rng w div n\<rparr>)"

definition random_randint :: "int \<Rightarrow> int \<Rightarrow> world \<Rightarrow> int outcome \<times> world" where
  "random_randint a b w =
     (let width = b + 1 - a
      in if width > 0 then
           (let (k, w') = randbelow (nat width) w in (Inr (a + int k), w'))
         else (Inl ValueError, w))"

definition random_number :: "int \<Rightarrow> int \<Rightarrow> world \<Rightarrow> pyval outcome \<times> world" where
  "random_number min_val max_val w =
     (let (r, w') = random_randint min_val max_val w
      in (bind_exn r (\<lambda>n. Inr (PyInt n)), w'))"

definition digit :: "nat \<Rightarrow> char" where
  "digit n = char_of (48 + n mod 10)"

definition pad2 :: "nat \<Rightarrow> string" where
  "pad2 n = [digit (n div 10), digit n]"

definition pad4 :: "nat \<Rightarrow> string" where
  "pad4 n = [digit (n div 1000), digit (n div 100), digit (n div 10), digit n]"

definition strftime :: "datetime \<Rightarrow> string" where
  "strftime d =
     pad4 (dt_year d) @ ''-'' @ pad2 (dt_month d) @ ''-'' @ pad2 (dt_day d) @ '' '' @
     pad2 (dt_hour d) @ '':'' @ pad2 (dt_minute d) @ '':'' @ pad2 (dt_second d)"

definition current_time :: "world \<Rightarrow> pyval outcome" where
  "current_time w = Inr (PyStr (strftime (clock w)))"

definition calculate_circle_area :: "float \<Rightarrow> pyval outcome" where
  "calculate_circle_area radius = Inr (PyFloat (fmul (fmul math_pi radius) radius))"

text \<open>
  \<^verbatim>\<open>str.upper\<close> replaces every character by its uppercase mapping in the Unicode
  tables, which may be more than one character. The table is a parameter.
\<close>

definition to_uppercase :: "(char \<Rightarrow> string) \<Rightarrow> string \<Rightarrow> pyval outcome" where
  "to_uppercase upper_map text = Inr (PyStr (concat (map upper_map text)))"

section \<open>Calling a tool\<close>

text \<open>
  The platform a tool runs on: the C mathematical library and the uppercase table.
  A call names a tool of one of the two servers and gives its arguments.
\<close>

record platform =
  math_lib :: libm
  upper_map :: "char \<Rightarrow> string"

datatype tool_call =
    Calc_add int int
  | Calc_subtract int int
  | Calc_multiply int int
  | Calc_divide float float
  | Calc_power float float
  | Calc_square_root float
  | Calc_modulo int int
  | Calc_sine float
  | Calc_cosine float
  | Calc_tangent float
  | Demo_add int int
  | Demo_multiply int int
  | Demo_random_number int int
  | Demo_current_time
  | Demo_calculate_circle_area float
  | Demo_to_uppercase string

fun invoke :: "platform \<Rightarrow> tool_call \<Rightarrow> world \<Rightarrow> pyval outcome \<times> world" where
  "invoke P (Calc_add a b) w = (add a b, w)"
| "invoke P (Calc_subtract a b) w = (subtract a b, w)"
| "invoke P (Calc_multiply a b) w = (multiply a b, w)"
| "invoke P (Calc_divide n d) w = (divide_calc n d, w)"
| "invoke P (Calc_power b e) w = (power_calc (math_lib P) b e, w)"
| "invoke P (Calc_square_root x) w = (square_root x, w)"
| "invoke P (Calc_modulo a b) w = (modulo_calc a b, w)"
| "invoke P (Calc_sine x) w = (sine (math_lib P) x, w)"
| "invoke P (Calc_cosine x) w = (cosine (math_lib P) x, w)"
| "invoke P (Calc_tangent x) w = (tangent (math_lib P) x, w)"
| "invoke P (Demo_add a b) w = (demo_add a b, w)"
| "invoke P (Demo_multiply a b) w = (demo_multiply a b, w)"
| "invoke P (Demo_random_number lo hi) w = random_number lo hi w"
| "invoke P Demo_current_time w = (current_time w, w)"
| "invoke P (Demo_calculate_circle_area r) w = (calculate_circle_area r, w)"
| "invoke P (Demo_to_uppercase t) w = (to_uppercase (upper_map P) t, w)"

section \<open>An idealised mathematical library\<close>

text \<open>
  Where a tool that takes the library as a parameter is evaluated at a concrete input,
  a concrete library is needed. The idealised one returns the float nearest to the exact
  real result and follows C99 (Annex F) on the special values: the sine, cosine and
  tangent of an infinity are NaN, a negative base with a fractional exponent gives NaN,
  and a zero base with a negative exponent gives an infinity. A real library may differ
  from it in the last digit of a finite result. \<^verbatim>\<open>math.pow\<close> calls \<open>c_pow\<close> with finite
  arguments only.
\<close>

definition round_real :: "real \<Rightarrow> float" where
  "round_real r = round_float (r < 0) \<bar>r\<bar>"

definition is_integer :: "float \<Rightarrow> bool" where
  "is_integer y = (is_finite y \<and> magnitude y = real_of_int \<lfloor>magnitude y\<rfloor>)"

definition ideal_sin :: "float \<Rightarrow> float" where
  "ideal_sin x =
     (if is_nan x then x else if is_inf x then quiet_nan
      else if is_zero x then x else round_real (sin (valof x)))"

definition ideal_cos :: "float \<Rightarrow> float" where
  "ideal_cos x =
     (if is_nan x then x else if is_inf x then quiet_nan
      else round_real (cos (valof x)))"

definition ideal_tan :: "float \<Rightarrow> float" where
  "ideal_tan x =
     (if is_nan x then x else if is_inf x then quiet_nan
      else if is_zero x then x else round_real (tan (valof x)))"

definition ideal_pow :: "float \<Rightarrow> float \<Rightarrow> float" where
  "ideal_pow x y =
     (if \<not> is_finite x \<or> \<not> is_finite y then quiet_nan
      else if is_zero y then float_one
      else if is_zero x then
        (if sign_bit y then (if sign_bit x \<and> is_odd_integer y then neg_inf else pos_inf)
         else (if sign_bit x \<and> is_odd_integer y then neg_zero else pos_zero))
      else if sign_bit x then
        (if is_integer y then round_float (is_odd_integer y) (magnitude x powr valof y)
         else quiet_nan)
      else round_float False (magnitude x powr valof y))"

definition ideal_libm :: libm where
  "ideal_libm = \<lparr>c_sin = ideal_sin, c_cos = ideal_cos, c_tan = ideal_tan, c_pow = ideal_pow\<rparr>"

text \<open>The uppercase mapping on ASCII, where it agrees with the Unicode one.\<close>

definition ascii_upper :: "char \<Rightarrow> string" where
  "ascii_upper c =
     (if 97 \<le> (of_char c :: nat) \<and> (of_char c :: nat) \<le> 122
      then [char_of (of_char c - 32 :: nat)] else [c])"

definition example_platform :: platform where
  "example_platform = \<lparr>math_lib = ideal_libm, upper_map = ascii_upper\<rparr>"

definition example_world :: world where
  "example_world =
     \<lparr>rng = 0,
      clock = \<lparr>dt_year = 2024, dt_month = 1, dt_day = 1,
               dt_hour = 0, dt_minute = 0, dt_second = 0\<rparr>\<rparr>"

section \<open>Notions used to state the properties\<close>

text \<open>Python's \<^verbatim>\<open>x >= i\<close> for a float \<open>x\<close> and an integer \<open>i\<close>.\<close>

definition float_ge_int :: "float \<Rightarrow> int \<Rightarrow> bool" where
  "float_ge_int a i =
     (\<not> is_nan a \<and> (if is_inf a then \<not> sign_bit a else real_of_int i \<le> valof a))"

text \<open>The two tools that read the world outside their arguments.\<close>

fun reads_world :: "tool_call \<Rightarrow> bool" where
  "reads_world (Demo_random_number lo hi) = True"
| "reads_world Demo_current_time = True"
| "reads_world c = False"


section \<open>Facts about the float representation\<close>

lemma fraction_unat: "fraction w = unat w mod 2 ^ 52"
proof -
  have "fraction w = take_bit 52 (unat w)"
    unfolding fraction_def by (rule unsigned_take_bit_eq)
  then show ?thesis by (simp only: take_bit_eq_mod)
qed

lemma biased_exp_unat: "biased_exp w = unat w div 2 ^ 52 mod 2 ^ 11"
proof -
  have "biased_exp w = take_bit 11 (drop_bit 52 (unat w))"
    unfolding biased_exp_def by (simp add: unsigned_take_bit_eq unat_drop_bit_eq)
  then show ?thesis by (simp only: take_bit_eq_mod drop_bit_eq_div)
qed

lemma unat_float_bound: "unat (w :: float) < 2 ^ 64"
  using unsigned_less [of w, where ?'a = nat] by simp

lemma sign_bit_unat: "sign_bit w = (2 ^ 63 \<le> unat w)"
proof -
  have "sign_bit w = bit (unat w) 63"
    unfolding sign_bit_def by (simp add: bit_unsigned_iff)
  then have "sign_bit w = odd (unat w div 2 ^ 63)"
    by (simp only: bit_iff_odd)
  moreover have "unat w div 2 ^ 63 < 2" using unat_float_bound [of w] by simp
  ultimately show ?thesis
    using unat_float_bound [of w] by (cases "2 ^ 63 \<le> unat w") auto
qed

lemma biased_exp_bound: "biased_exp w < 2048"
  by (simp add: biased_exp_unat)

lemma fraction_bound: "fraction w < 2 ^ 52"
  by (simp add: fraction_unat)

lemma unat_fields:
  "unat w = (if sign_bit w then 2 ^ 63 else 0) + biased_exp w * 2 ^ 52 + fraction w"
proof -
  define n where "n = unat w"
  define q where "q = n div 2 ^ 52"
  have n: "n = q * 2 ^ 52 + n mod 2 ^ 52" by (simp add: q_def)
  have q: "q < 2 ^ 12" using unat_float_bound [of w] by (simp add: q_def n_def)
  have "(2 ^ 11 \<le> q) = (2 ^ 11 * 2 ^ 52 \<le> n)"
    unfolding q_def by (rule less_eq_div_iff_mult_less_eq) simp
  then have s: "(2 ^ 63 \<le> n) = (2 ^ 11 \<le> q)" by simp
  have "q = (if 2 ^ 11 \<le> q then 2 ^ 11 else 0) + q mod 2 ^ 11" 
    using q by (auto simp: mod_if)
  then have "q * 2 ^ 52 = (if 2 ^ 11 \<le> q then 2 ^ 63 else 0) + q mod 2 ^ 11 * 2 ^ 52"
    by (smt (verit) add_mult_distrib mult_zero_left power_add numeral_plus_numeral semiring_norm)
  with n s show ?thesis
    unfolding sign_bit_unat biased_exp_unat fraction_unat n_def[symmetric] q_def[symmetric]
    by simp
qed


lemma unat_mk_float:
  assumes "e < 2048" "f < 2 ^ 52"
  shows "unat (mk_float s e f) = (if s then 2 ^ 63 else 0) + e * 2 ^ 52 + f"
proof -
  have "e * 2 ^ 52 \<le> 2047 * 2 ^ 52" using assms(1) by simp
  then have "(if s then 2 ^ 63 else 0) + e * 2 ^ 52 + f < (2 ^ 64 :: nat)"
    using assms(2) by (simp split: if_splits)
  then have "((if s then 2 ^ 63 else 0) + e * 2 ^ 52 + f) mod 2 ^ LENGTH(64) =
      (if s then 2 ^ 63 else 0) + e * 2 ^ 52 + f"
    by (intro mod_less) simp
  then show ?thesis
    unfolding mk_float_def by (simp only: unat_of_nat)
qed

lemma fraction_mk_float:
  assumes "e < 2048" "f < 2 ^ 52"
  shows "fraction (mk_float s e f) = f"
proof -
  have "((if s then 2 ^ 63 else 0) + e * 2 ^ 52 + f) mod 2 ^ 52 = f mod (2 ^ 52 :: nat)"
  proof -
    have "(if s then 2 ^ 63 else 0) + e * 2 ^ 52 + f = f + ((if s then 2 ^ 11 else 0) + e) * (2 ^ 52 :: nat)"
      by (simp add: add_mult_distrib)
    then show ?thesis by (simp only: mod_mult_self1)
  qed
  then show ?thesis
    using assms by (simp add: fraction_unat unat_mk_float)
qed

lemma biased_exp_mk_float:
  assumes "e < 2048" "f < 2 ^ 52"
  shows "biased_exp (mk_float s e f) = e"
proof -
  have "(if s then 2 ^ 63 else 0) + e * 2 ^ 52 + f = f + ((if s then 2 ^ 11 else 0) + e) * (2 ^ 52 :: nat)"
    by (simp add: add_mult_distrib)
  then have "((if s then 2 ^ 63 else 0) + e * 2 ^ 52 + f) div 2 ^ 52 = (if s then 2 ^ 11 else 0) + e"
    using assms(2) by (simp only: div_mult_self1) simp
  then show ?thesis
    using assms by (simp add: biased_exp_unat unat_mk_float)
qed

lemma sign_bit_mk_float:
  assumes "e < 2048" "f < 2 ^ 52"
  shows "sign_bit (mk_float s e f) = s"
proof -
  have "e * 2 ^ 52 \<le> 2047 * 2 ^ 52" using assms(1) by simp
  then have "e * 2 ^ 52 + f < (2 ^ 63 :: nat)" using assms(2) by simp
  then show ?thesis
    using assms by (simp add: sign_bit_unat unat_mk_float)
qed

lemma float_eqI:
  assumes "sign_bit a = sign_bit b" "biased_exp a = biased_exp b" "fraction a = fraction b"
  shows "a = b"
proof -
  have "unat a = unat b" using assms by (simp add: unat_fields [of a] unat_fields [of b])
  then show ?thesis by (simp add: word_unat_eq_iff)
qed

lemma is_inf_iff: "is_inf w \<longleftrightarrow> w = pos_inf \<or> w = neg_inf"
proof
  assume inf: "is_inf w"
  show "w = pos_inf \<or> w = neg_inf"
  proof (cases "sign_bit w")
    case True
    have "w = neg_inf"
      by (rule float_eqI)
        (use True inf in \<open>simp_all add: is_inf_def neg_inf_def sign_bit_def biased_exp_def fraction_def\<close>)
    then show ?thesis ..
  next
    case False
    have "w = pos_inf"
      by (rule float_eqI)
        (use False inf in \<open>simp_all add: is_inf_def pos_inf_def sign_bit_def biased_exp_def fraction_def\<close>)
    then show ?thesis ..
  qed
next
  assume "w = pos_inf \<or> w = neg_inf"
  then show "is_inf w"
    by (auto simp add: is_inf_def pos_inf_def neg_inf_def biased_exp_def fraction_def)
qed


lemma magnitude_nonneg: "0 \<le> magnitude w"
  by (simp add: magnitude_def)

lemma magnitude_eq_0_iff: "magnitude w = 0 \<longleftrightarrow> is_zero w"
  by (auto simp add: magnitude_def is_zero_def)

lemma valof_eq_0_iff: "valof w = 0 \<longleftrightarrow> is_zero w"
  by (simp add: valof_def magnitude_eq_0_iff)

lemma is_zero_finite: "is_zero w \<Longrightarrow> is_finite w"
  by (simp add: is_zero_def is_finite_def)

lemma float_eq_int_0_iff: "float_eq_int d 0 \<longleftrightarrow> is_zero d"
  using is_zero_finite [of d] by (auto simp add: float_eq_int_def valof_eq_0_iff)

lemma not_nan_inf: "is_inf w \<Longrightarrow> \<not> is_nan w"
  by (simp add: is_inf_def is_nan_def)

lemma float_eq_pos_inf: "float_eq v pos_inf \<longleftrightarrow> v = pos_inf"
proof -
  have p: "is_inf pos_inf" "\<not> sign_bit pos_inf" "sign_bit neg_inf"
    by (simp_all add: is_inf_def pos_inf_def neg_inf_def sign_bit_def biased_exp_def fraction_def)
  show ?thesis
    using p not_nan_inf [of v] by (auto simp add: float_eq_def is_inf_iff [of v])
qed

lemma float_eq_neg_inf: "float_eq v neg_inf \<longleftrightarrow> v = neg_inf"
proof -
  have p: "is_inf neg_inf" "\<not> sign_bit pos_inf" "sign_bit neg_inf"
    by (simp_all add: is_inf_def pos_inf_def neg_inf_def sign_bit_def biased_exp_def fraction_def)
  show ?thesis
    using p not_nan_inf [of v] by (auto simp add: float_eq_def is_inf_iff [of v])
qed

section \<open>The integer tools\<close>

lemma trunc_rem_nonneg: "0 \<le> a \<Longrightarrow> trunc_rem a b = a mod \<bar>b\<bar>"
  by (cases "a = 0") (simp_all add: trunc_rem_def)

lemma trunc_rem_neg: "a < 0 \<Longrightarrow> trunc_rem a b = - ((- a) mod \<bar>b\<bar>)"
  by (simp add: trunc_rem_def)

lemma trunc_rem_cases:
  "trunc_rem a b =
     (if 0 < b then (if 0 \<le> a \<or> a mod b = 0 then a mod b else a mod b - b)
      else (if a \<le> 0 \<or> a mod b = 0 then a mod b else a mod b - b))"
proof (cases "0 \<le> a")
  case True
  show ?thesis
  proof (cases "0 < b")
    case b: True
    with True show ?thesis by (simp add: trunc_rem_nonneg)
  next
    case b: False
    then have "\<bar>b\<bar> = - b" by simp
    with True b show ?thesis
      by (cases "a = 0") (simp_all add: trunc_rem_nonneg zmod_zminus2_eq_if)
  qed
next
  case False
  then have a: "a < 0" by simp
  show ?thesis
  proof (cases "0 < b")
    case b: True
    with a show ?thesis by (simp add: trunc_rem_neg zmod_zminus1_eq_if)
  next
    case b: False
    then have "\<bar>b\<bar> = - b" by simp
    with a b show ?thesis by (simp add: trunc_rem_neg)
  qed
qed

lemma py_mod_eq_mod: 
  assumes "b \<noteq> 0" shows "py_mod a b = Inr (a mod b)"
proof -
  define m where "m = a mod b"
  have pos: "0 < b \<Longrightarrow> 0 \<le> m \<and> m < b" by (simp add: m_def)
  have neg: "b < 0 \<Longrightarrow> b < m \<and> m \<le> 0" by (simp add: m_def)
  have r: "trunc_rem a b =
     (if 0 < b then (if 0 \<le> a \<or> m = 0 then m else m - b)
      else (if a \<le> 0 \<or> m = 0 then m else m - b))"
    unfolding m_def by (rule trunc_rem_cases)
  show ?thesis
  proof (cases "0 < b")
    case True
    with pos r show ?thesis unfolding py_mod_def Let_def m_def[symmetric] by auto
  next
    case False
    with assms have "b < 0" by simp
    with neg r show ?thesis unfolding py_mod_def Let_def m_def[symmetric] by auto
  qed
qed

lemma modulo_calc_nonzero: "b \<noteq> 0 \<Longrightarrow> modulo_calc a b = Inr (PyInt (a mod b))"
  by (simp add: modulo_calc_def py_mod_eq_mod bind_exn_def try_except_def)

lemma int_limits_ordered: "INT_MIN \<le> INT_MAX"
  by (simp add: INT_MIN_def INT_MAX_def sys_maxsize_def)

text \<open>
  Claim C1. For all integers \<open>a\<close> and \<open>b\<close> (in particular those within the representable
  range), the calculator's \<open>add\<close> returns the exact sum when it lies between \<open>INT_MIN\<close>
  and \<open>INT_MAX\<close>, the overflow message when it exceeds \<open>INT_MAX\<close> and the underflow
  message when it is below \<open>INT_MIN\<close>; \<open>subtract\<close> and \<open>multiply\<close> do the same with the
  exact difference and product.
\<close>
theorem calculator_integer_arithmetic:
  "add a b = Inr (if INT_MIN \<le> a + b \<and> a + b \<le> INT_MAX then PyInt (a + b)
                  else if INT_MAX < a + b
                    then PyStr ''Error: Overflow occurred in addition. Result is too large.''
                    else PyStr ''Error: Underflow occurred in addition. Result is too small.'')
   \<and> subtract a b = Inr (if INT_MIN \<le> a - b \<and> a - b \<le> INT_MAX then PyInt (a - b)
                  else if INT_MAX < a - b
                    then PyStr ''Error: Overflow occurred in subtraction. Result is too large.''
                    else PyStr ''Error: Underflow occurred in subtraction. Result is too small.'')
   \<and> multiply a b = Inr (if INT_MIN \<le> a * b \<and> a * b \<le> INT_MAX then PyInt (a * b)
                  else if INT_MAX < a * b
                    then PyStr ''Error: Overflow occurred in multiplication. Result is too large.''
                    else PyStr ''Error: Underflow occurred in multiplication. Result is too small.'')"
  using int_limits_ordered
  by (simp add: add_def subtract_def multiply_def bind_exn_def try_except_def
      check_integer_bounds_def overflow_msg_def underflow_msg_def)

text \<open>
  Claim C6. Both bounds checks return their input unchanged when it is within range and
  otherwise exactly the overflow or the underflow message with the operation's name
  inserted; a float is out of range if and only if it is the positive or the negative
  infinity.
\<close>
theorem bounds_checks:
  "check_integer_bounds v operation =
     (if INT_MIN \<le> v \<and> v \<le> INT_MAX then PyInt v
      else if INT_MAX < v
        then PyStr (''Error: Overflow occurred in '' @ operation @ ''. Result is too large.'')
        else PyStr (''Error: Underflow occurred in '' @ operation @ ''. Result is too small.''))
   \<and> check_float_bounds x operation =
     (if x = pos_inf
        then PyStr (''Error: Overflow occurred in '' @ operation @ ''. Result is too large.'')
      else if x = neg_inf
        then PyStr (''Error: Underflow occurred in '' @ operation @ ''. Result is too small.'')
      else PyFloat x)"
proof -
  have "pos_inf \<noteq> neg_inf" by (simp add: pos_inf_def neg_inf_def)
  then show ?thesis
    using int_limits_ordered
    by (simp add: check_integer_bounds_def check_float_bounds_def float_eq_pos_inf
        float_eq_neg_inf overflow_msg_def underflow_msg_def)
qed

text \<open>
  Claim C3, as stated, fails: for a divisor beyond \<open>INT_MAX\<close> the remainder is returned
  as it is, an integer outside the range and not an error message.
\<close>
theorem modulo_out_of_range:
  "modulo_calc 9223372036854775808 9223372036854775809 = Inr (PyInt 9223372036854775808)
   \<and> INT_MAX < 9223372036854775808"
  by (simp add: modulo_calc_nonzero INT_MAX_def sys_maxsize_def)

text \<open>
  Claim C3, amended. For every integer \<open>x\<close>, \<open>modulo(x, 0)\<close> returns the zero-divisor
  message; for every divisor \<open>b \<noteq> 0\<close> the tool returns the integer \<open>a % b\<close>, the
  remainder \<open>a mod b\<close> of the floored division, and never an error message; that
  integer lies between \<open>INT_MIN\<close> and \<open>INT_MAX\<close> whenever the divisor \<open>b\<close> does.
\<close>

theorem modulo_zero_and_range:
  "modulo_calc x 0 = Inr (PyStr ''Error: Cannot perform modulo with zero divisor.'')
   \<and> (b \<noteq> 0 \<longrightarrow>
        modulo_calc a b = Inr (PyInt (a mod b)) \<and>
        (INT_MIN \<le> b \<and> b \<le> INT_MAX \<longrightarrow> INT_MIN \<le> a mod b \<and> a mod b \<le> INT_MAX))"
proof -
  have "INT_MIN \<le> a mod b \<and> a mod b \<le> INT_MAX"
    if "b \<noteq> 0" "INT_MIN \<le> b" "b \<le> INT_MAX"
  proof (cases "0 < b")
    case True
    then have "0 \<le> a mod b" "a mod b < b" by simp_all
    moreover have "INT_MIN \<le> 0" by (simp add: INT_MIN_def sys_maxsize_def)
    ultimately show ?thesis using that by linarith
  next
    case False
    with that have "b < 0" by simp
    then have "b < a mod b" "a mod b \<le> 0" by simp_all
    moreover have "0 \<le> INT_MAX" by (simp add: INT_MAX_def sys_maxsize_def)
    ultimately show ?thesis using that by linarith
  qed
  then show ?thesis
    by (auto simp add: modulo_calc_nonzero) (simp add: modulo_calc_def)
qed

theorem modulo_zero_and_range_witness:
  "modulo_calc 5 0 = Inr (PyStr ''Error: Cannot perform modulo with zero divisor.'')
   \<and> (3::int) \<noteq> 0 \<and> INT_MIN \<le> 3 \<and> 3 \<le> INT_MAX
   \<and> modulo_calc 17 3 = Inr (PyInt 2) \<and> INT_MIN \<le> 2 \<and> 2 \<le> INT_MAX"
  using modulo_zero_and_range [of 5 3 17]
  by (simp add: INT_MIN_def INT_MAX_def sys_maxsize_def)

text \<open>
  Claim C10. For a divisor \<open>b \<noteq> 0\<close> the integer returned by \<open>modulo(a, b)\<close> is the
  remainder of the floored division, \<open>a - b * \<lfloor>a / b\<rfloor>\<close>, and has the sign of the
  divisor: it lies in \<open>[0, b)\<close> for a positive and in \<open>(b, 0]\<close> for a negative divisor.
  In particular \<open>modulo(-7, 3)\<close> is \<open>2\<close>.
\<close>
theorem modulo_floored:
  "b \<noteq> 0 \<Longrightarrow>
     \<exists>r. modulo_calc a b = Inr (PyInt r)
       \<and> r = a - b * \<lfloor>real_of_int a / real_of_int b\<rfloor>
       \<and> (0 < b \<longrightarrow> 0 \<le> r \<and> r < b)
       \<and> (b < 0 \<longrightarrow> b < r \<and> r \<le> 0)"
proof -
  assume b: "b \<noteq> 0"
  have "\<lfloor>real_of_int a / real_of_int b\<rfloor> = a div b"
    by (rule floor_divide_of_int_eq)
  then have fl: "a mod b = a - b * \<lfloor>real_of_int a / real_of_int b\<rfloor>"
    by (simp add: minus_mult_div_eq_mod)
  have pos: "0 < b \<longrightarrow> 0 \<le> a mod b \<and> a mod b < b" by simp
  have neg: "b < 0 \<longrightarrow> b < a mod b \<and> a mod b \<le> 0" by simp
  have "modulo_calc a b = Inr (PyInt (a mod b))"
    using b by (rule modulo_calc_nonzero)
  with fl pos neg show ?thesis by metis
qed

theorem modulo_floored_witness:
  "(3::int) \<noteq> 0 \<and> modulo_calc (- 7) 3 = Inr (PyInt 2)
   \<and> (- 3::int) \<noteq> 0 \<and> modulo_calc 7 (- 3) = Inr (PyInt (- 2))"
  using modulo_floored [of 3 "- 7"] modulo_floored [of "- 3" 7]
  by auto

section \<open>Division and the float bounds check\<close>

lemma divide_calc_eq:
  "divide_calc x d =
     (if is_zero d then Inr (PyStr ''Error: Cannot divide by zero.'')
      else Inr (check_float_bounds (fdiv x d) ''division''))"
  by (simp add: divide_calc_def float_eq_int_0_iff float_truediv_def bind_exn_def try_except_def)


lemma check_float_bounds_nan: "is_nan v \<Longrightarrow> check_float_bounds v operation = PyFloat v"
  by (auto simp add: check_float_bounds_def float_eq_def)

lemma is_nan_quiet_nan: "is_nan quiet_nan"
  by (simp add: is_nan_def quiet_nan_def biased_exp_def fraction_def)

lemma inf_not_zero: "is_inf w \<Longrightarrow> \<not> is_zero w"
  by (simp add: is_inf_def is_zero_def)

text \<open>
  Claim C9. The float bounds check passes a NaN through unchanged, so that a tool routed
  through it returns the NaN as a number: dividing an infinity by an infinity returns a
  NaN and not an error message.
\<close>

theorem nan_passes_float_bounds:
  "(is_nan v \<longrightarrow> check_float_bounds v operation = PyFloat v)
   \<and> (is_inf x \<and> is_inf y \<longrightarrow> (\<exists>r. is_nan r \<and> divide_calc x y = Inr (PyFloat r)))"
proof -
  have "divide_calc x y = Inr (PyFloat quiet_nan)" if "is_inf x" "is_inf y"
    using that
    by (simp add: divide_calc_eq inf_not_zero fdiv_def not_nan_inf check_float_bounds_nan
        is_nan_quiet_nan)
  then show ?thesis 
    using is_nan_quiet_nan by (auto simp add: check_float_bounds_nan)
qed

theorem nan_passes_float_bounds_witness:
  "is_nan quiet_nan \<and> check_float_bounds quiet_nan ''division'' = PyFloat quiet_nan
   \<and> is_inf pos_inf \<and> is_inf neg_inf
   \<and> (\<exists>r. is_nan r \<and> divide_calc pos_inf neg_inf = Inr (PyFloat r))"
  using nan_passes_float_bounds [of quiet_nan "''division''" pos_inf neg_inf]
  by (simp add: is_nan_quiet_nan is_inf_iff)

section \<open>Rounding\<close>

lemma log2_floor_bounds:
  assumes "0 < (a::real)"
  shows "2 powi \<lfloor>log 2 a\<rfloor> \<le> a" and "a < 2 powi (\<lfloor>log 2 a\<rfloor> + 1)"
proof -
  have "2 powr real_of_int \<lfloor>log 2 a\<rfloor> \<le> a \<and> a < 2 powr real_of_int (\<lfloor>log 2 a\<rfloor> + 1)"
    using floor_log_eq_powr_iff [of a 2 "\<lfloor>log 2 a\<rfloor>"] assms by simp
  then show "2 powi \<lfloor>log 2 a\<rfloor> \<le> a" and "a < 2 powi (\<lfloor>log 2 a\<rfloor> + 1)"
    by (simp_all only: powr_real_of_int' [of 2, simplified])
qed

lemma round_even_nonneg: "0 \<le> x \<Longrightarrow> 0 \<le> round_even x"
  by (simp add: round_even_def Let_def)

lemma round_even_le: 
  assumes "x < real_of_int n" shows "round_even x \<le> n"
proof -
  have "\<lfloor>x\<rfloor> < n" using assms by (simp add: floor_less_iff)
  then show ?thesis by (simp add: round_even_def Let_def)
qed

lemma scaled_below:
  assumes "0 < (a::real)" and "\<lfloor>log 2 a\<rfloor> \<le> e"
  shows "a * 2 powi (52 - e) < 2 ^ 53"
proof -
  have "a < 2 powi (\<lfloor>log 2 a\<rfloor> + 1)" using assms(1) by (rule log2_floor_bounds)
  also have "\<dots> \<le> 2 powi (e + 1)" using assms(2) by (intro power_int_increasing) simp_all
  finally have "a * 2 powi (52 - e) < 2 powi (e + 1) * 2 powi (52 - e)"
    by (simp add: zero_less_power_int)
  also have "\<dots> = 2 powi ((e + 1) + (52 - e))"
    by (subst power_int_add) simp_all
  also have "\<dots> = 2 ^ 53" by simp
  finally show ?thesis .
qed

lemma round_float_shape:
  assumes "0 \<le> a"
  shows "\<exists>e f. f < 2 ^ 52 \<and> round_float s a = mk_float s e f \<and>
           (if a < 2 ^ 1023 then e < 2047 else e \<le> 2047 \<and> (e = 2047 \<longrightarrow> f = 0))"
proof (cases "a = 0")
  case True
  have "(0::nat) < 2 ^ 52 \<and> round_float s a = mk_float s 0 0 \<and> (0::nat) < 2047"
    using True by (simp add: round_float_def)
  then show ?thesis using True by (intro exI [of _ 0]) simp
next
  case False
  with assms have pos: "0 < a" by simp
  define e where "e = max \<lfloor>log 2 a\<rfloor> (- 1022)"
  define m where "m = round_even (a * 2 powi (52 - e))"
  define e' where "e' = (if m = 2 ^ 53 then e + 1 else e)"
  define m' where "m' = (if m = 2 ^ 53 then 2 ^ 52 else m)"
  have rf: "round_float s a =
      (if e' > 1023 then mk_float s 2047 0
       else if m' < 2 ^ 52 then mk_float s 0 (nat m')
       else mk_float s (nat (e' + 1023)) (nat (m' - 2 ^ 52)))"
    using False by (simp add: round_float_def Let_def e_def m_def e'_def m'_def)
  have "a * 2 powi (52 - e) < 2 ^ 53"
    using pos by (rule scaled_below) (simp add: e_def)
  then have "a * 2 powi (52 - e) < real_of_int (2 ^ 53)" by simp
  then have m_le: "m \<le> 2 ^ 53" unfolding m_def by (rule round_even_le)
  have "0 \<le> a * 2 powi (52 - e)" using pos by simp
  then have m_ge: "0 \<le> m" unfolding m_def by (rule round_even_nonneg)
  have m'_lt: "m' < 2 ^ 53" and m'_ge: "0 \<le> m'" using m_le m_ge by (auto simp add: m'_def)
  have e_ge: "- 1022 \<le> e" by (simp add: e_def)
  have e'_ge: "- 1022 \<le> e'" using e_ge by (simp add: e'_def)
  have small: "e' \<le> 1023" if "a < 2 ^ 1023"
  proof -
    have "2 powi \<lfloor>log 2 a\<rfloor> \<le> a" using pos by (rule log2_floor_bounds)
    also have "a < 2 powi 1023" using that by simp
    finally have "\<lfloor>log 2 a\<rfloor> < 1023"
      by (rule power_int_le_imp_less_exp [rotated]) simp_all
    then have "e \<le> 1022" by (simp add: e_def)
    then show ?thesis by (simp add: e'_def)
  qed
  consider (inf) "e' > 1023" | (sub) "e' \<le> 1023" "m' < 2 ^ 52" | (norm) "e' \<le> 1023" "2 ^ 52 \<le> m'"
    by linarith
  then show ?thesis
  proof cases
    case inf
    then have "round_float s a = mk_float s 2047 0" using rf by simp
    moreover have "\<not> a < 2 ^ 1023" using inf small by auto
    ultimately show ?thesis by (intro exI [of _ 2047] exI [of _ 0]) simp
  next
    case sub
    then have "round_float s a = mk_float s 0 (nat m')" using rf by simp
    moreover have "nat m' < 2 ^ 52" using sub m'_ge by (simp add: nat_less_iff)
    ultimately show ?thesis by (intro exI [of _ 0] exI [of _ "nat m'"]) simp
  next
    case norm
    then have "round_float s a = mk_float s (nat (e' + 1023)) (nat (m' - 2 ^ 52))"
      using rf by simp
    moreover have "nat (m' - 2 ^ 52) < 2 ^ 52" using norm m'_lt by (simp add: nat_less_iff)
    moreover have "nat (e' + 1023) < 2047" using norm e'_ge by simp
    ultimately show ?thesis
      by (intro exI [of _ "nat (e' + 1023)"] exI [of _ "nat (m' - 2 ^ 52)"]) simp
  qed
qed

lemma round_float_sign: "0 \<le> a \<Longrightarrow> sign_bit (round_float s a) = s"
  using round_float_shape [of a s] by (auto simp add: sign_bit_mk_float split: if_splits)

lemma round_float_not_nan: "0 \<le> a \<Longrightarrow> \<not> is_nan (round_float s a)"
  using round_float_shape [of a s]
  by (auto simp add: is_nan_def biased_exp_mk_float fraction_mk_float split: if_splits)

lemma round_float_finite: "0 \<le> a \<Longrightarrow> a < 2 ^ 1023 \<Longrightarrow> is_finite (round_float s a)"
  using round_float_shape [of a s]
  by (auto simp add: is_finite_def biased_exp_mk_float)

lemma round_even_ge:
  assumes "real_of_int n \<le> x" shows "n \<le> round_even x"
proof -
  have "n \<le> \<lfloor>x\<rfloor>" using assms by (simp add: le_floor_iff)
  then show ?thesis by (simp add: round_even_def Let_def)
qed

lemma round_even_error: "\<bar>real_of_int (round_even x) - x\<bar> \<le> 1 / 2"
proof -
  have "real_of_int \<lfloor>x\<rfloor> \<le> x" "x < real_of_int \<lfloor>x\<rfloor> + 1" by linarith+
  then show ?thesis by (auto simp add: round_even_def Let_def)
qed

lemma magnitude_mk_float:
  assumes "e < 2048" "f < 2 ^ 52"
  shows "magnitude (mk_float s e f) =
     (if e = 0 then real f * 2 powi (- 1074) else real (2 ^ 52 + f) * 2 powi (int e - 1075))"
  using assms by (simp add: magnitude_def biased_exp_mk_float fraction_mk_float)

lemma round_float_error:
  assumes "0 < a" "a < 2 ^ 1023"
  shows "\<bar>magnitude (round_float s a) - a\<bar> \<le> 2 powi (max \<lfloor>log 2 a\<rfloor> (- 1022) - 53)"
proof -
  define e where "e = max \<lfloor>log 2 a\<rfloor> (- 1022)"
  define x where "x = a * 2 powi (52 - e)"
  define m where "m = round_even x"
  define e' where "e' = (if m = 2 ^ 53 then e + 1 else e)"
  define m' where "m' = (if m = 2 ^ 53 then 2 ^ 52 else m)"
  have rf: "round_float s a =
      (if e' > 1023 then mk_float s 2047 0
       else if m' < 2 ^ 52 then mk_float s 0 (nat m')
       else mk_float s (nat (e' + 1023)) (nat (m' - 2 ^ 52)))"
    using assms(1) by (simp add: round_float_def Let_def e_def m_def e'_def m'_def x_def)
  have "x < 2 ^ 53"
    unfolding x_def using assms(1) by (rule scaled_below) (simp add: e_def)
  then have "x < real_of_int (2 ^ 53)" by simp
  then have m_le: "m \<le> 2 ^ 53" unfolding m_def by (rule round_even_le)
  have "0 \<le> x" using assms(1) by (simp add: x_def)
  then have m_ge: "0 \<le> m" unfolding m_def by (rule round_even_nonneg)
  have m'_lt: "m' < 2 ^ 53" and m'_ge: "0 \<le> m'" using m_le m_ge by (auto simp add: m'_def)
  have e_ge: "- 1022 \<le> e" by (simp add: e_def)
  have e'_ge: "- 1022 \<le> e'" using e_ge by (simp add: e'_def)
  have "2 powi \<lfloor>log 2 a\<rfloor> \<le> a" using assms(1) by (rule log2_floor_bounds)
  also have "a < 2 powi 1023" using assms(2) by simp
  finally have "\<lfloor>log 2 a\<rfloor> < 1023"
    by (rule power_int_le_imp_less_exp [rotated]) simp_all
  then have "e \<le> 1022" by (simp add: e_def)
  then have e'_le: "e' \<le> 1023" by (simp add: e'_def)
  have same: "real_of_int m' * 2 powi (e' - 52) = real_of_int m * 2 powi (e - 52)"
  proof (cases "m = 2 ^ 53")
    case True
    have "(2::real) powi (e + 1 - 52) = 2 powi (e - 52) * 2"
      using power_int_add_1 [of "2::real" "e - 52"] by (simp add: algebra_simps)
    then show ?thesis using True by (simp add: m'_def e'_def)
  next
    case False
    then show ?thesis by (simp add: m'_def e'_def)
  qed
  have val: "magnitude (round_float s a) = real_of_int m' * 2 powi (e' - 52)"
  proof (cases "m' < 2 ^ 52")
    case True
    then have m: "m = m'" by (auto simp add: m'_def split: if_splits)
    have "e = - 1022"
    proof (rule ccontr)
      assume "e \<noteq> - 1022"
      then have el: "e = \<lfloor>log 2 a\<rfloor>" by (simp add: e_def max_def split: if_splits)
      have "2 powi e \<le> a" unfolding el using assms(1) by (rule log2_floor_bounds)
      then have "2 powi e * 2 powi (52 - e) \<le> x"
        unfolding x_def by (simp add: zero_less_power_int)
      moreover have "(2::real) powi e * 2 powi (52 - e) = 2 powi (e + (52 - e))"
        by (subst power_int_add) simp_all
      ultimately have "real_of_int (2 ^ 52) \<le> x" by simp
      then have "2 ^ 52 \<le> m" unfolding m_def by (rule round_even_ge)
      with True m show False by simp
    qed
    then have "e' = - 1022" using m True by (auto simp add: e'_def)
    moreover have "magnitude (round_float s a) = real (nat m') * 2 powi (- 1074)"
      using True e'_le m'_ge rf by (simp add: magnitude_mk_float nat_less_iff)
    ultimately show ?thesis using m'_ge by simp
  next
    case False
    then have "round_float s a = mk_float s (nat (e' + 1023)) (nat (m' - 2 ^ 52))"
      using rf e'_le by simp
    moreover have "nat (m' - 2 ^ 52) < 2 ^ 52" using False m'_lt by (simp add: nat_less_iff)
    moreover have "nat (e' + 1023) < 2048" "nat (e' + 1023) \<noteq> 0" using e'_le e'_ge by simp_all
    ultimately have "magnitude (round_float s a) =
        real (2 ^ 52 + nat (m' - 2 ^ 52)) * 2 powi (int (nat (e' + 1023)) - 1075)"
      by (simp add: magnitude_mk_float)
    moreover have "real (2 ^ 52 + nat (m' - 2 ^ 52)) = real_of_int m'"
      using False by simp
    moreover have "int (nat (e' + 1023)) - 1075 = e' - 52" using e'_ge by simp
    ultimately show ?thesis by simp
  qed
  have a: "a = x * 2 powi (e - 52)"
  proof -
    have "(2::real) powi (52 - e) * 2 powi (e - 52) = 2 powi ((52 - e) + (e - 52))"
      by (subst power_int_add) simp_all
    then show ?thesis by (simp add: x_def mult.assoc)
  qed
  have "magnitude (round_float s a) - a = (real_of_int m - x) * 2 powi (e - 52)"
    using val same a by (simp add: algebra_simps)
  then have "\<bar>magnitude (round_float s a) - a\<bar> = \<bar>real_of_int m - x\<bar> * 2 powi (e - 52)"
    by (simp add: abs_mult)
  also have "\<dots> \<le> (1 / 2) * 2 powi (e - 52)"
    using round_even_error [of x] by (intro mult_right_mono) (simp_all add: m_def)
  also have "\<dots> = 2 powi (e - 53)"
    using power_int_add_1 [of "2::real" "e - 53"] by simp
  finally show ?thesis by (simp add: e_def)
qed

lemma magnitude_less:
  assumes "is_finite w" shows "magnitude w < 2 powi 1024"
proof -
  define t where "t = (2::real)"
  have t: "1 < t" "1 \<le> t" "0 < t" "t \<noteq> 0" by (simp_all add: t_def)
  have mag: "magnitude w =
     (if biased_exp w = 0 then real (fraction w) * t powi (- 1074)
      else real (2 ^ 52 + fraction w) * t powi (int (biased_exp w) - 1075))"
    unfolding magnitude_def t_def ..
  have fr: "real (fraction w) < 2 ^ 52"
    using fraction_bound [of w] by (metis of_nat_less_iff of_nat_numeral of_nat_power)
  then have 1: "real (2 ^ 52 + fraction w) < t powi 53" by (simp add: t_def)
  have "magnitude w < t powi 1024"
  proof (cases "biased_exp w = 0")
    case True
    have "t powi (- 1074) \<le> t powi 971" using t by (intro power_int_increasing) simp_all
    moreover have "real (fraction w) < t powi 53" using fr by (simp add: t_def)
    ultimately have "real (fraction w) * t powi (- 1074) < t powi 53 * t powi 971"
      using t by (intro mult_less_le_imp_less) (simp_all add: zero_less_power_int)
    also have "\<dots> = t powi (53 + 971)" using t by (subst power_int_add) simp_all
    finally show ?thesis using True by (simp add: mag)
  next
    case False
    have "int (biased_exp w) - 1075 \<le> 971" using assms by (simp add: is_finite_def)
    then have "t powi (int (biased_exp w) - 1075) \<le> t powi 971"
      using t by (intro power_int_increasing) simp_all
    then have "real (2 ^ 52 + fraction w) * t powi (int (biased_exp w) - 1075) < t powi 53 * t powi 971"
      using 1 t by (intro mult_less_le_imp_less) (simp_all add: zero_less_power_int)
    also have "\<dots> = t powi (53 + 971)" using t by (subst power_int_add) simp_all
    finally show ?thesis using False by (simp add: mag)
  qed
  then show ?thesis unfolding t_def .
qed

lemma magnitude_ge:
  assumes "\<not> is_zero w" shows "2 powi (- 1074) \<le> magnitude w"
proof -
  define t where "t = (2::real)"
  have t: "1 < t" "1 \<le> t" "0 < t" "t \<noteq> 0" by (simp_all add: t_def)
  have mag: "magnitude w =
     (if biased_exp w = 0 then real (fraction w) * t powi (- 1074)
      else real (2 ^ 52 + fraction w) * t powi (int (biased_exp w) - 1075))"
    unfolding magnitude_def t_def ..
  have "t powi (- 1074) \<le> magnitude w"
  proof (cases "biased_exp w = 0")
    case True
    with assms have "1 \<le> fraction w" by (simp add: is_zero_def)
    then have "1 \<le> real (fraction w)" by simp
    then have "1 * t powi (- 1074) \<le> real (fraction w) * t powi (- 1074)"
      using t by (intro mult_right_mono) (simp_all add: zero_less_power_int less_imp_le)
    then show ?thesis using True by (simp add: mag)
  next
    case False
    have "t powi (- 1074) \<le> t powi (int (biased_exp w) - 1075)"
      using False t by (intro power_int_increasing) simp_all
    moreover have "1 \<le> real (2 ^ 52 + fraction w)" by simp
    ultimately have "1 * t powi (- 1074) \<le>
        real (2 ^ 52 + fraction w) * t powi (int (biased_exp w) - 1075)"
      using t by (intro mult_mono) (simp_all add: zero_less_power_int less_imp_le)
    then show ?thesis using False by (simp add: mag)
  qed
  then show ?thesis unfolding t_def .
qed

lemma sqrt_magnitude_bounds:
  assumes "is_finite w" "\<not> is_zero w"
  shows "2 powi (- 537) \<le> sqrt (magnitude w)" and "sqrt (magnitude w) < 2 ^ 1023"
proof -
  define t where "t = (2::real)"
  have t: "1 < t" "1 \<le> t" "0 < t" "t \<noteq> 0" by (simp_all add: t_def)
  have hi: "magnitude w < t powi 1024" unfolding t_def using assms(1) by (rule magnitude_less)
  have lo: "t powi (- 1074) \<le> magnitude w" unfolding t_def using assms(2) by (rule magnitude_ge)
  have "(t powi 512)\<^sup>2 = t powi (512 + 512)"
    unfolding power2_eq_square using t by (subst power_int_add) simp_all
  then have "sqrt (magnitude w) < sqrt ((t powi 512)\<^sup>2)"
    using hi by (simp only: real_sqrt_less_iff) simp
  then have "sqrt (magnitude w) < t powi 512"
    using t by (simp only: real_sqrt_abs) (simp add: zero_less_power_int less_imp_le)
  also have "t powi 512 \<le> t powi 1023" using t by (intro power_int_increasing) simp_all
  also have "t powi 1023 = t ^ 1023" by simp
  finally show "sqrt (magnitude w) < 2 ^ 1023" unfolding t_def .
  have "(t powi (- 537))\<^sup>2 = t powi (- 537 + - 537)"
    unfolding power2_eq_square using t by (subst power_int_add) simp_all
  then have "(t powi (- 537))\<^sup>2 = t powi (- 1074)" by simp
  then have "sqrt ((t powi (- 537))\<^sup>2) \<le> sqrt (magnitude w)"
    using lo by (simp only: real_sqrt_le_iff)
  moreover have "0 \<le> t powi (- 537)" using t by (simp add: zero_less_power_int less_imp_le)
  ultimately have "t powi (- 537) \<le> sqrt (magnitude w)"
    by (simp only: real_sqrt_abs abs_of_nonneg)
  then show "2 powi (- 537) \<le> sqrt (magnitude w)" unfolding t_def .
qed

lemma finite_not_nan_inf: "is_finite w \<longleftrightarrow> \<not> is_nan w \<and> \<not> is_inf w"
  using biased_exp_bound [of w] by (auto simp add: is_finite_def is_nan_def is_inf_def)

lemma fsqrt_positive:
  assumes "is_finite x" "\<not> is_zero x" "\<not> sign_bit x"
  shows "fsqrt x = round_float False (sqrt (magnitude x))"
  using assms by (simp add: fsqrt_def finite_not_nan_inf)

lemma fsqrt_positive_facts:
  assumes "is_finite x" "\<not> is_zero x" "\<not> sign_bit x"
  shows "is_finite (fsqrt x)" "\<not> sign_bit (fsqrt x)"
    "\<bar>magnitude (fsqrt x) - sqrt (magnitude x)\<bar> \<le> sqrt (magnitude x) / 2 ^ 53"
proof -
  define t where "t = (2::real)"
  have t: "1 < t" "1 \<le> t" "0 < t" "t \<noteq> 0" by (simp_all add: t_def)
  define a where "a = sqrt (magnitude x)"
  have lo: "t powi (- 537) \<le> a" and hi: "a < 2 ^ 1023"
    unfolding a_def t_def using assms(1,2) by (rule sqrt_magnitude_bounds)+
  have "0 < t powi (- 537)" using t by (simp add: zero_less_power_int)
  then have pos: "0 < a" using lo by (rule less_le_trans)
  have f: "fsqrt x = round_float False a" unfolding a_def using assms by (rule fsqrt_positive)
  show "is_finite (fsqrt x)" unfolding f using pos hi by (intro round_float_finite) simp_all
  show "\<not> sign_bit (fsqrt x)" unfolding f using pos by (simp add: round_float_sign)
  have up: "a < t powi (\<lfloor>log 2 a\<rfloor> + 1)" and dn: "t powi \<lfloor>log 2 a\<rfloor> \<le> a"
    unfolding t_def using pos by (rule log2_floor_bounds)+
  have "- 1022 \<le> \<lfloor>log 2 a\<rfloor>"
  proof (rule ccontr)
    assume "\<not> - 1022 \<le> \<lfloor>log 2 a\<rfloor>"
    then have "\<lfloor>log 2 a\<rfloor> + 1 \<le> - 537" by linarith
    then have "t powi (\<lfloor>log 2 a\<rfloor> + 1) \<le> t powi (- 537)"
      using t by (intro power_int_increasing) simp_all
    with up lo show False by linarith
  qed
  then have m: "max \<lfloor>log 2 a\<rfloor> (- 1022) = \<lfloor>log 2 a\<rfloor>" by simp
  have "\<bar>magnitude (round_float False a) - a\<bar> \<le> t powi (\<lfloor>log 2 a\<rfloor> - 53)"
    unfolding t_def using round_float_error [OF pos hi, of False] by (simp only: m)
  also have "\<dots> = t powi \<lfloor>log 2 a\<rfloor> / t powi 53"
    using t by (subst power_int_diff) simp_all
  also have "\<dots> \<le> a / t powi 53"
    using dn t by (intro divide_right_mono) (simp_all add: zero_less_power_int less_imp_le)
  also have "t powi 53 = 2 ^ 53" by (simp add: t_def)
  finally show "\<bar>magnitude (fsqrt x) - sqrt (magnitude x)\<bar> \<le> sqrt (magnitude x) / 2 ^ 53"
    by (simp add: f a_def)
qed

section \<open>The square root\<close>

lemma nonneg_float_cases:
  assumes "\<not> is_nan x" "\<not> float_lt_int x 0"
  shows "is_zero x \<or> (is_inf x \<and> \<not> sign_bit x) \<or> (is_finite x \<and> \<not> is_zero x \<and> \<not> sign_bit x)"
proof (cases "is_inf x")
  case True
  with assms show ?thesis by (simp add: float_lt_int_def)
next
  case False
  with assms have fin: "is_finite x" by (simp add: finite_not_nan_inf)
  from assms False have v: "0 \<le> valof x" by (simp add: float_lt_int_def)
  show ?thesis
  proof (cases "sign_bit x")
    case True
    with v have "magnitude x \<le> 0" by (simp add: valof_def)
    with magnitude_nonneg [of x] have "magnitude x = 0" by simp
    then show ?thesis by (simp add: magnitude_eq_0_iff)
  next
    case False
    with fin show ?thesis by auto
  qed
qed

lemma zero_not_nan_inf: "is_zero x \<Longrightarrow> \<not> is_nan x \<and> \<not> is_inf x"
  by (simp add: is_zero_def is_nan_def is_inf_def)

lemma quiet_nan_not_inf: "\<not> is_inf quiet_nan"
  by (simp add: is_inf_def quiet_nan_def biased_exp_def fraction_def)

lemma math_sqrt_returns:
  assumes "\<not> float_lt_int x 0"
  shows "math_sqrt x = Inr (fsqrt x)"
proof (cases "is_nan x")
  case True
  then show ?thesis
    by (simp add: math_sqrt_def math_1_def fsqrt_def quiet_nan_not_inf)
next
  case False
  from nonneg_float_cases [OF False assms] show ?thesis
  proof (elim disjE conjE)
    assume "is_zero x"
    then show ?thesis
      using zero_not_nan_inf [of x] by (simp add: math_sqrt_def math_1_def fsqrt_def)
  next
    assume "is_inf x" "\<not> sign_bit x"
    then show ?thesis
      using False finite_not_nan_inf [of x] inf_not_zero [of x]
      by (simp add: math_sqrt_def math_1_def fsqrt_def)
  next
    assume a: "is_finite x" "\<not> is_zero x" "\<not> sign_bit x"
    then have "is_finite (fsqrt x)" by (rule fsqrt_positive_facts)
    then show ?thesis
      by (simp add: math_sqrt_def math_1_def finite_not_nan_inf)
  qed
qed

lemma square_root_returns:
  "\<not> float_lt_int x 0 \<Longrightarrow> square_root x = Inr (PyFloat (fsqrt x))"
  by (simp add: square_root_def math_sqrt_returns bind_exn_def try_except_def)

lemma float_ge_int_0_iff: "float_ge_int x 0 \<longleftrightarrow> \<not> is_nan x \<and> \<not> float_lt_int x 0"
  by (auto simp add: float_ge_int_def float_lt_int_def)

lemma valof_nonneg: "\<not> sign_bit x \<Longrightarrow> valof x = magnitude x"
  by (simp add: valof_def)

lemma floor_log2_4: "\<lfloor>log 2 (4::real)\<rfloor> = 2"
  by (simp add: floor_log_eq_powr_iff)

lemma fsqrt_16: "fsqrt 0x4030000000000000 = 0x4010000000000000"
proof -
  have m: "magnitude 0x4030000000000000 = 16"
    by (simp add: magnitude_def biased_exp_def fraction_def)
  have "sqrt 16 = sqrt (4\<^sup>2)" by simp
  then have s: "sqrt 16 = 4" by (simp only: real_sqrt_abs abs_numeral)
  have "round_float False 4 = 0x4010000000000000"
    by (simp add: round_float_def floor_log2_4 Let_def round_even_def mk_float_def)
  moreover have "fsqrt 0x4030000000000000 = round_float False (sqrt (magnitude 0x4030000000000000))"
    by (rule fsqrt_positive)
      (simp_all add: is_finite_def is_zero_def sign_bit_def biased_exp_def fraction_def)
  ultimately show ?thesis by (simp add: m s)
qed

text \<open>
  Claim C7. For every float \<open>x < 0\<close>, \<open>square_root(x)\<close> returns the negative-number
  message. For every \<open>x \<ge> 0\<close> it returns the float \<open>fsqrt x\<close>, which is again \<open>\<ge> 0\<close>:
  the infinity for the infinity, and for a finite \<open>x\<close> a finite float within a relative
  error of \<open>2^-53\<close> of the real square root of \<open>x\<close>. In particular \<open>square_root(16.0)\<close>
  returns \<open>4.0\<close>.
\<close>

theorem square_root_domain:
  "(float_lt_int x 0 \<longrightarrow>
      square_root x = Inr (PyStr ''Error: Cannot calculate the square root of a negative number.''))
   \<and> (float_ge_int x 0 \<longrightarrow>
        square_root x = Inr (PyFloat (fsqrt x)) \<and> float_ge_int (fsqrt x) 0
        \<and> (is_inf x \<longrightarrow> fsqrt x = pos_inf)
        \<and> (is_finite x \<longrightarrow> is_finite (fsqrt x)
              \<and> \<bar>valof (fsqrt x) - sqrt (valof x)\<bar> \<le> sqrt (valof x) / 2 ^ 53))
   \<and> square_root 0x4030000000000000 = Inr (PyFloat 0x4010000000000000)"
proof (intro conjI impI)
  assume "float_lt_int x 0"
  then show "square_root x = Inr (PyStr ''Error: Cannot calculate the square root of a negative number.'')"
    by (simp add: square_root_def)
next
  assume ge: "float_ge_int x 0"
  then have nn: "\<not> is_nan x" "\<not> float_lt_int x 0" by (simp_all add: float_ge_int_0_iff)
  then show "square_root x = Inr (PyFloat (fsqrt x))" by (simp add: square_root_returns)
  note cases = nonneg_float_cases [OF nn]
  from cases show "float_ge_int (fsqrt x) 0"
  proof (elim disjE conjE)
    assume "is_zero x"
    then show ?thesis using ge zero_not_nan_inf [of x] by (simp add: fsqrt_def)
  next
    assume "is_inf x" "\<not> sign_bit x"
    then show ?thesis using ge nn inf_not_zero [of x] by (simp add: fsqrt_def)
  next
    assume a: "is_finite x" "\<not> is_zero x" "\<not> sign_bit x"
    have "is_finite (fsqrt x)" "\<not> sign_bit (fsqrt x)" using a by (rule fsqrt_positive_facts)+
    then show ?thesis
      using magnitude_nonneg [of "fsqrt x"]
      by (simp add: float_ge_int_def finite_not_nan_inf valof_nonneg)
  qed
  {
    assume inf: "is_inf x"
    with cases have "\<not> sign_bit x" using zero_not_nan_inf [of x] finite_not_nan_inf [of x] by auto
    moreover have "sign_bit neg_inf"
      by (simp add: neg_inf_def sign_bit_def)
    ultimately have "x = pos_inf" using inf by (auto simp add: is_inf_iff)
    then show "fsqrt x = pos_inf"
      using inf nn inf_not_zero [of x] \<open>\<not> sign_bit x\<close> by (simp add: fsqrt_def)
  }
  {
    assume fin: "is_finite x"
    show "is_finite (fsqrt x)"
    proof (cases "is_zero x")
      case True
      then show ?thesis using fin zero_not_nan_inf [of x] by (simp add: fsqrt_def)
    next
      case False
      with cases fin have "\<not> sign_bit x" by (auto simp add: finite_not_nan_inf)
      with fin False show ?thesis by (rule fsqrt_positive_facts)
    qed
    show "\<bar>valof (fsqrt x) - sqrt (valof x)\<bar> \<le> sqrt (valof x) / 2 ^ 53"
    proof (cases "is_zero x")
      case True
      then have "fsqrt x = x" using zero_not_nan_inf [of x] by (simp add: fsqrt_def)
      moreover have "valof x = 0" using True by (simp add: valof_eq_0_iff)
      ultimately show ?thesis by simp
    next
      case False
      with cases fin have s: "\<not> sign_bit x" by (auto simp add: finite_not_nan_inf)
      have "\<not> sign_bit (fsqrt x)"
        "\<bar>magnitude (fsqrt x) - sqrt (magnitude x)\<bar> \<le> sqrt (magnitude x) / 2 ^ 53"
        using fin False s by (rule fsqrt_positive_facts)+
      then show ?thesis using s by (simp add: valof_nonneg)
    qed
  }
next
  have "\<not> float_lt_int 0x4030000000000000 0"
    by (simp add: float_lt_int_def is_inf_def is_nan_def valof_def magnitude_def sign_bit_def
        biased_exp_def fraction_def)
  then show "square_root 0x4030000000000000 = Inr (PyFloat 0x4010000000000000)"
    by (simp add: square_root_returns fsqrt_16)
qed

theorem square_root_domain_witness:
  "float_lt_int 0xBFF0000000000000 0
   \<and> square_root 0xBFF0000000000000 =
       Inr (PyStr ''Error: Cannot calculate the square root of a negative number.'')
   \<and> float_ge_int 0x4030000000000000 0 \<and> is_finite 0x4030000000000000
   \<and> square_root 0x4030000000000000 = Inr (PyFloat 0x4010000000000000)
   \<and> float_ge_int pos_inf 0 \<and> is_inf pos_inf
   \<and> square_root pos_inf = Inr (PyFloat pos_inf)"
proof -
  have 1: "float_lt_int 0xBFF0000000000000 0"
    by (simp add: float_lt_int_def is_inf_def is_nan_def valof_def magnitude_def sign_bit_def
        biased_exp_def fraction_def)
  have 2: "float_ge_int 0x4030000000000000 0" "is_finite 0x4030000000000000"
    by (simp_all add: float_ge_int_def is_finite_def is_inf_def is_nan_def valof_def magnitude_def
        sign_bit_def biased_exp_def fraction_def)
  have 3: "float_ge_int pos_inf 0" "is_inf pos_inf"
    by (simp_all add: float_ge_int_def pos_inf_def is_inf_def is_nan_def sign_bit_def
        biased_exp_def fraction_def)
  show ?thesis
    using 1 2 3 square_root_domain [of "0xBFF0000000000000"]
      square_root_domain [of "0x4030000000000000"] square_root_domain [of pos_inf]
    by simp
qed

section \<open>Determinism and totality of the tools\<close>

lemma math_1_raises: "math_1 f ov x = Inl e \<Longrightarrow> e = ValueError \<or> e = OverflowError"
  by (auto simp add: math_1_def Let_def split: if_splits)

lemma tangent_eq:
  "tangent L x =
     (case math_tan L (fmul x deg_to_rad) of
        Inl e \<Rightarrow> Inr (PyStr (if e = OverflowError
                         then ''Error: Overflow occurred in tangent calculation.''
                         else ''Error: Invalid input for tangent calculation.''))
      | Inr r \<Rightarrow> Inr (check_float_bounds r ''tangent calculation''))"
proof (cases "math_tan L (fmul x deg_to_rad)")
  case (Inl e)
  then have "e = ValueError \<or> e = OverflowError"
    unfolding math_tan_def by (rule math_1_raises)
  with Inl show ?thesis
    by (auto simp add: tangent_def math_radians_def bind_exn_def try_except_def)
next
  case (Inr r)
  then show ?thesis
    by (simp add: tangent_def math_radians_def bind_exn_def try_except_def)
qed


lemma random_number_eq:
  "fst (random_number lo hi w) =
     (if lo \<le> hi then Inr (PyInt (lo + int (rng w mod nat (hi + 1 - lo)))) else Inl ValueError)"
  by (simp add: random_number_def random_randint_def randbelow_def Let_def bind_exn_def)


text \<open>
  Claim C8. Every tool except \<open>random_number\<close> and \<open>current_time\<close> is deterministic:
  called in two different worlds (states of the random generator and of the clock) with
  identical arguments it returns identical results, and it leaves the world as it found
  it, so that a second call follows the first with the same result.
\<close>

theorem tools_deterministic:
  "\<not> reads_world c \<Longrightarrow>
     fst (invoke P c w) = fst (invoke P c w') \<and> snd (invoke P c w) = w"
  by (cases c) simp_all

theorem tools_deterministic_witness:
  "\<not> reads_world (Calc_divide pos_inf neg_zero)
   \<and> fst (invoke example_platform (Calc_divide pos_inf neg_zero) example_world) =
       fst (invoke example_platform (Calc_divide pos_inf neg_zero) (example_world\<lparr>rng := 7\<rparr>))
   \<and> snd (invoke example_platform (Calc_divide pos_inf neg_zero) example_world) = example_world"
  using tools_deterministic [of "Calc_divide pos_inf neg_zero" example_platform example_world
      "example_world\<lparr>rng := 7\<rparr>"]
  by simp

text \<open>The two excluded tools do depend on the world.\<close>

lemma world_dependent_tools:
  "fst (invoke P (Demo_random_number 1 100) (w\<lparr>rng := 0\<rparr>)) \<noteq>
     fst (invoke P (Demo_random_number 1 100) (w\<lparr>rng := 1\<rparr>))"
  "fst (invoke P Demo_current_time (w\<lparr>clock := clock w\<lparr>dt_second := 0\<rparr>\<rparr>)) \<noteq>
     fst (invoke P Demo_current_time (w\<lparr>clock := clock w\<lparr>dt_second := 1\<rparr>\<rparr>))"
  by (simp_all add: random_number_eq current_time_def strftime_def pad2_def digit_def)




section \<open>The tangent and its invalid-input message\<close>

lemma math_1_value_error:
  "math_1 f False x = Inl ValueError \<longleftrightarrow>
     (is_nan (f x) \<and> \<not> is_nan x) \<or> (is_inf (f x) \<and> is_finite x)"
  by (simp add: math_1_def Let_def)

lemma math_1_not_overflow: "math_1 f False x \<noteq> Inl OverflowError"
  by (simp add: math_1_def Let_def)

lemma check_float_bounds_not_invalid:
  "check_float_bounds r ''tangent calculation'' \<noteq>
     PyStr ''Error: Invalid input for tangent calculation.''"
  by (simp add: check_float_bounds_def overflow_msg_def underflow_msg_def)

lemma tangent_invalid_iff:
  "tangent L x = Inr (PyStr ''Error: Invalid input for tangent calculation.'') \<longleftrightarrow>
     math_tan L (fmul x deg_to_rad) = Inl ValueError"
proof (cases "math_tan L (fmul x deg_to_rad)")
  case (Inl e)
  then have "e = ValueError"
    using math_1_raises [of "c_tan L" False "fmul x deg_to_rad" e]
      math_1_not_overflow [of "c_tan L" "fmul x deg_to_rad"]
    by (auto simp add: math_tan_def)
  with Inl show ?thesis by (simp add: tangent_eq)
next
  case (Inr r)
  then show ?thesis by (simp add: tangent_eq check_float_bounds_not_invalid)
qed

lemma deg_to_rad_facts:
  "\<not> is_nan deg_to_rad" "\<not> is_inf deg_to_rad" "\<not> is_zero deg_to_rad"
  by (simp_all add: deg_to_rad_def is_nan_def is_inf_def is_zero_def biased_exp_def fraction_def)

lemma is_inf_mk_float: "is_inf (mk_float s 2047 0)"
  by (simp add: is_inf_def biased_exp_mk_float fraction_mk_float)

lemma radians_of_inf: "is_inf x \<Longrightarrow> is_inf (fmul x deg_to_rad)"
  using deg_to_rad_facts not_nan_inf [of x] inf_not_zero [of x]
  by (simp add: fmul_def Let_def is_inf_mk_float)

text \<open>
  Claim C4, amended. \<open>tangent\<close> returns the invalid-input message, which differs from the
  overflow messages, exactly when \<^verbatim>\<open>math.tan\<close> raises \<^verbatim>\<open>ValueError\<close>: when the library's
  tangent of the angle in radians is a NaN although the angle is not, or an infinity
  although the angle is finite. For an infinite angle, whose tangent is a NaN in a C99
  library, the tool returns the message.
\<close>

theorem tangent_invalid_input:
  "(tangent L x = Inr (PyStr ''Error: Invalid input for tangent calculation.'') \<longleftrightarrow>
      (let a = fmul x deg_to_rad; r = c_tan L a
       in (is_nan r \<and> \<not> is_nan a) \<or> (is_inf r \<and> is_finite a)))
   \<and> (is_inf x \<and> is_nan (c_tan L (fmul x deg_to_rad)) \<longrightarrow>
        tangent L x = Inr (PyStr ''Error: Invalid input for tangent calculation.''))
   \<and> ''Error: Invalid input for tangent calculation.'' \<noteq> overflow_msg ''tangent calculation''
   \<and> ''Error: Invalid input for tangent calculation.'' \<noteq>
        ''Error: Overflow occurred in tangent calculation.''"
proof -
  have 1: "tangent L x = Inr (PyStr ''Error: Invalid input for tangent calculation.'') \<longleftrightarrow>
      (let a = fmul x deg_to_rad; r = c_tan L a
       in (is_nan r \<and> \<not> is_nan a) \<or> (is_inf r \<and> is_finite a))"
    by (simp add: tangent_invalid_iff math_tan_def math_1_value_error Let_def)
  have 2: "tangent L x = Inr (PyStr ''Error: Invalid input for tangent calculation.'')"
    if "is_inf x" "is_nan (c_tan L (fmul x deg_to_rad))"
  proof -
    have "\<not> is_nan (fmul x deg_to_rad)"
      using radians_of_inf [OF that(1)] by (rule not_nan_inf)
    with that(2) show ?thesis using 1 by (simp add: Let_def)
  qed
  show ?thesis using 1 2 by (simp add: overflow_msg_def)
qed

lemma ideal_tan_inf: "is_inf a \<Longrightarrow> ideal_tan a = quiet_nan"
  using not_nan_inf [of a] by (simp add: ideal_tan_def)

theorem tangent_invalid_input_witness:
  "is_inf pos_inf \<and> is_nan (c_tan ideal_libm (fmul pos_inf deg_to_rad))
   \<and> tangent ideal_libm pos_inf = Inr (PyStr ''Error: Invalid input for tangent calculation.'')"
proof -
  have i: "is_inf pos_inf" by (simp add: is_inf_iff)
  have n: "is_nan (c_tan ideal_libm (fmul pos_inf deg_to_rad))"
    using radians_of_inf [OF i] by (simp add: ideal_libm_def ideal_tan_inf is_nan_quiet_nan)
  show ?thesis
    using i n tangent_invalid_input [of ideal_libm pos_inf] by simp
qed

subsection \<open>The tangent at 90 degrees\<close>

text \<open>
  A lower bound of \<open>\<pi>\<close> from Machin's formula and the alternating series of the
  arc tangent, precise enough to separate \<open>\<pi>/2\<close> from the float next to it.
\<close>

lemma arctan_series_bounds:
  fixes x :: real
  assumes "0 < x" "x \<le> 1"
  shows "(\<Sum>k<2 * n. (- 1) ^ k * (1 / real (k * 2 + 1) * x ^ (k * 2 + 1))) \<le> arctan x"
    and "arctan x \<le> (\<Sum>k<2 * n + 1. (- 1) ^ k * (1 / real (k * 2 + 1) * x ^ (k * 2 + 1)))"
proof -
  let ?a = "\<lambda>k. 1 / real (k * 2 + 1) * x ^ (k * 2 + 1)"
  have ax: "\<bar>x\<bar> \<le> 1" using assms by simp
  have "0 < ?a 0" using assms by simp
  then have "(\<Sum>i. (- 1) ^ i * ?a i) \<in> {\<Sum>i<2 * n. (- 1) ^ i * ?a i .. \<Sum>i<2 * n + 1. (- 1) ^ i * ?a i}"
    using summable_Leibniz(2) [OF zeroseq_arctan_series [OF ax] monoseq_arctan_series [OF ax]]
    by blast
  then show "(\<Sum>k<2 * n. (- 1) ^ k * ?a k) \<le> arctan x"
    and "arctan x \<le> (\<Sum>k<2 * n + 1. (- 1) ^ k * ?a k)"
    by (simp_all add: arctan_series [OF ax])
qed

lemma arctan_le_self:
  fixes x :: real
  assumes "0 < x" "x \<le> 1"
  shows "arctan x \<le> x"
  using arctan_series_bounds(2) [OF assms, of 0] by simp

lemma pi_lower: "1811004864519280641 / 576460752303423488 < pi"
proof -
  define L :: real where "L = (\<Sum>k<2 * 6. (- 1) ^ k * (1 / real (k * 2 + 1) * (1 / 5) ^ (k * 2 + 1)))"
  define U :: real where "U = (\<Sum>k<2 * 1 + 1. (- 1) ^ k * (1 / real (k * 2 + 1) * (1 / 239) ^ (k * 2 + 1)))"
  have L: "L \<le> arctan (1 / 5)"
    unfolding L_def by (rule arctan_series_bounds) simp_all
  have U: "arctan (1 / 239) \<le> U"
    unfolding U_def by (rule arctan_series_bounds) simp_all
  have "1811004864519280641 / 576460752303423488 < 4 * (4 * L - U)"
    unfolding L_def U_def
    by (simp add: lessThan_nat_numeral lessThan_Suc power_divide)
  also have "\<dots> \<le> 4 * (4 * arctan (1 / 5) - arctan (1 / 239))"
    using L U by simp
  also have "\<dots> = pi" using machin by simp
  finally show ?thesis .
qed

lemma tan_below_pole:
  fixes v :: real
  assumes "0 < v" "v \<le> 7074237752028440 / 2 ^ 52"
  shows "0 < tan v" and "tan v < 2 ^ 60"
proof -
  have v: "v < pi / 2 - 1 / 2 ^ 60" using assms(2) pi_lower by simp
  then have v': "v < pi / 2" by (rule less_le_trans) simp
  show "0 < tan v" using assms(1) v' by (rule tan_gt_zero)
  have "arctan (1 / 2 ^ 60) = pi / 2 - arctan (2 ^ 60)"
    using arctan_inverse [of "2 ^ 60 :: real"] by simp
  moreover have "arctan (1 / 2 ^ 60) \<le> (1 / 2 ^ 60 :: real)"
    by (rule arctan_le_self) simp_all
  ultimately have "pi / 2 - 1 / 2 ^ 60 \<le> arctan (2 ^ 60)" by simp
  with v have "v < arctan (2 ^ 60)" by simp
  moreover have "arctan (tan v) = v" using assms(1) v' by (intro arctan_tan) simp_all
  ultimately have "arctan (tan v) < arctan (2 ^ 60)" by simp
  then show "tan v < 2 ^ 60" by (simp only: arctan_less_iff)
qed

lemma magnitude_90: "magnitude 0x4056800000000000 = 90"
  by (simp add: magnitude_def biased_exp_def fraction_def)

lemma magnitude_deg_to_rad: "magnitude deg_to_rad = 5030569068109113 / 2 ^ 58"
  by (simp add: magnitude_def deg_to_rad_def biased_exp_def fraction_def)

lemma floor_log2_radians_90: "\<lfloor>log 2 (90 * (5030569068109113 / 2 ^ 58) :: real)\<rfloor> = 0"
  by (simp add: floor_log_eq_powr_iff)

lemma radians_90: "fmul 0x4056800000000000 deg_to_rad = 0x3FF921FB54442D18"
proof -
  have "round_float False (90 * (5030569068109113 / 2 ^ 58)) = 0x3FF921FB54442D18"
    unfolding round_float_def floor_log2_radians_90
    by (simp add: Let_def round_even_def mk_float_def)
  moreover have "\<not> is_nan 0x4056800000000000" "\<not> is_inf 0x4056800000000000"
    "\<not> sign_bit 0x4056800000000000"
    by (simp_all add: is_nan_def is_inf_def sign_bit_def biased_exp_def fraction_def)
  moreover have "\<not> sign_bit deg_to_rad" by (simp add: deg_to_rad_def sign_bit_def)
  ultimately show ?thesis
    using deg_to_rad_facts
    by (simp add: fmul_def Let_def magnitude_90 magnitude_deg_to_rad)
qed

lemma half_pi_float:
  "\<not> is_nan 0x3FF921FB54442D18" "\<not> is_inf 0x3FF921FB54442D18" "\<not> is_zero 0x3FF921FB54442D18"
  "is_finite 0x3FF921FB54442D18"
  "valof 0x3FF921FB54442D18 = 7074237752028440 / 2 ^ 52"
  by (simp_all add: is_nan_def is_inf_def is_zero_def is_finite_def valof_def magnitude_def
      sign_bit_def biased_exp_def fraction_def)

lemma ideal_tan_half_pi:
  "is_finite (ideal_tan 0x3FF921FB54442D18)"
proof -
  define v :: real where "v = 7074237752028440 / 2 ^ 52"
  have "0 < v" "v \<le> 7074237752028440 / 2 ^ 52" by (simp_all add: v_def)
  then have t: "0 < tan v" "tan v < 2 ^ 60" by (rule tan_below_pole)+
  have "(2::real) ^ 60 \<le> 2 ^ 1023" by (intro power_increasing) simp_all
  with t(2) have "tan v < 2 ^ 1023" by (rule less_le_trans)
  then have "is_finite (round_float False (tan v))"
    using t(1) by (intro round_float_finite) simp_all
  moreover have "ideal_tan 0x3FF921FB54442D18 = round_float False (tan v)"
    using t(1) by (simp add: ideal_tan_def half_pi_float round_real_def v_def)
  ultimately show ?thesis by simp
qed

text \<open>
  Claim C4, as stated, fails: at \<open>90.0\<close> degrees the angle in radians is the float next
  to \<open>\<pi>/2\<close>, its tangent is a finite number, and \<open>tangent\<close> returns it as a float.
\<close>

theorem tangent_90_is_a_number:
  "tangent ideal_libm 0x4056800000000000 = Inr (PyFloat (ideal_tan 0x3FF921FB54442D18))
   \<and> is_finite (ideal_tan 0x3FF921FB54442D18)"
proof -
  have f: "is_finite (ideal_tan 0x3FF921FB54442D18)" by (rule ideal_tan_half_pi)
  then have n: "\<not> is_nan (ideal_tan 0x3FF921FB54442D18)" "\<not> is_inf (ideal_tan 0x3FF921FB54442D18)"
    by (simp_all add: finite_not_nan_inf)
  then have "math_tan ideal_libm 0x3FF921FB54442D18 = Inr (ideal_tan 0x3FF921FB54442D18)"
    by (simp add: math_tan_def math_1_def ideal_libm_def)
  moreover have "check_float_bounds (ideal_tan 0x3FF921FB54442D18) ''tangent calculation'' =
      PyFloat (ideal_tan 0x3FF921FB54442D18)"
    using n(2) by (auto simp add: check_float_bounds_def float_eq_pos_inf float_eq_neg_inf is_inf_iff)
  ultimately show ?thesis
    using f by (simp add: tangent_eq radians_90)
qed

section \<open>Exceptions that escape\<close>

text \<open>
  \<open>power\<close>, \<open>sine\<close> and \<open>cosine\<close> let a \<^verbatim>\<open>ValueError\<close> of the math module escape: their
  handler names \<^verbatim>\<open>OverflowError\<close> only, unlike the handlers of \<open>tangent\<close>.
\<close>

lemma power_calc_value_error:
  assumes "is_finite x" "is_finite y" "is_nan (c_pow L x y)"
  shows "power_calc L x y = Inl ValueError"
  using assms by (simp add: power_calc_def math_pow_def Let_def bind_exn_def try_except_def)

lemma sine_value_error:
  assumes "is_inf x" "is_nan (c_sin L (fmul x deg_to_rad))"
  shows "sine L x = Inl ValueError"
proof -
  have "\<not> is_nan (fmul x deg_to_rad)"
    using radians_of_inf [OF assms(1)] by (rule not_nan_inf)
  then have "math_sin L (fmul x deg_to_rad) = Inl ValueError"
    using assms(2) by (simp add: math_sin_def math_1_def)
  then show ?thesis
    by (simp add: sine_def math_radians_def bind_exn_def try_except_def)
qed

lemma cosine_value_error:
  assumes "is_inf x" "is_nan (c_cos L (fmul x deg_to_rad))"
  shows "cosine L x = Inl ValueError"
proof -
  have "\<not> is_nan (fmul x deg_to_rad)"
    using radians_of_inf [OF assms(1)] by (rule not_nan_inf)
  then have "math_cos L (fmul x deg_to_rad) = Inl ValueError"
    using assms(2) by (simp add: math_cos_def math_1_def)
  then show ?thesis
    by (simp add: cosine_def math_radians_def bind_exn_def try_except_def)
qed

lemma power_of_negative_base_raises:
  "power_calc ideal_libm 0xBFF0000000000000 0x3FE0000000000000 = Inl ValueError"
proof (rule power_calc_value_error)
  show "is_finite 0xBFF0000000000000" "is_finite 0x3FE0000000000000"
    by (simp_all add: is_finite_def biased_exp_def)
  have "ideal_pow 0xBFF0000000000000 0x3FE0000000000000 = quiet_nan"
    by (simp add: ideal_pow_def is_finite_def is_zero_def is_integer_def sign_bit_def
        magnitude_def biased_exp_def fraction_def)
  then show "is_nan (c_pow ideal_libm 0xBFF0000000000000 0x3FE0000000000000)"
    by (simp add: ideal_libm_def is_nan_quiet_nan)
qed

lemma sine_of_infinity_raises: "sine ideal_libm pos_inf = Inl ValueError"
proof (rule sine_value_error)
  show i: "is_inf pos_inf" by (simp add: is_inf_iff)
  show "is_nan (c_sin ideal_libm (fmul pos_inf deg_to_rad))"
    using radians_of_inf [OF i] not_nan_inf [of "fmul pos_inf deg_to_rad"]
    by (simp add: ideal_libm_def ideal_sin_def is_nan_quiet_nan)
qed

end
